theory Spec2Isabelle
  imports Complex_Main
begin

section \<open>The responder agent of assistant-hub\<close>

text \<open>
  A shallow embedding of \<^verbatim>\<open>src/services/assistant/agents/ResponderAgent.ts\<close>.
  The class's fields are a record, every method is a function that takes the machine
  state and returns it updated, a \<^verbatim>\<open>throw\<close> or a rejected promise is an error
  value returned beside the state reached when it was raised, and every effect that
  leaves the class (a console line, a call of a collaborator, a record enqueued on the
  output stream) is appended to a trace in program order.
\<close>

subsection \<open>Data\<close>

text \<open>The roles of a message, as the union type of \<^verbatim>\<open>role\<close> lists them.\<close>

datatype role = R_system | R_user | R_assistant | R_function | R_data | R_tool

text \<open>
  A tool call as it travels in a delta and in a finalized message. A field that can be
  missing in the JSON is an option.
\<close>

record tool_call =
  tc_index :: nat
  tc_id :: "string option"
  tc_name :: "string option"
  tc_arguments :: "string option"

record delta =
  d_role :: "role option"
  d_content :: "string option"
  d_tool_calls :: "tool_call list option"

datatype finish_reason =
  FR_stop | FR_length | FR_tool_calls | FR_content_filter | FR_function_call

record choice =
  c_delta :: delta
  c_finish_reason :: "finish_reason option"

text \<open>
  A \<^verbatim>\<open>ChatCompletionChunk\<close>, reduced to its \<^verbatim>\<open>choices\<close>. The property is an
  option because \<^verbatim>\<open>processResponse\<close> starts from the object \<^verbatim>\<open>{}\<close>, which has
  none.
\<close>

record chunk =
  choices :: "choice list option"

record message =
  m_id :: string
  m_thread_id :: string
  m_role :: "role option"
  m_content :: "string option"
  m_tool_calls :: "tool_call list option"
  m_tool_call_id :: "string option"

text \<open>A \<^verbatim>\<open>ChatCompletionTool\<close>: the function's name and its required parameters.\<close>

record tool =
  fn_name :: string
  fn_required :: "string list"

definition mockTools :: "tool list" where
  "mockTools =
     [\<lparr>fn_name = ''get_current_weather'', fn_required = [''location'']\<rparr>,
      \<lparr>fn_name = ''control_air_conditioner'', fn_required = [''temperature'']\<rparr>]"

definition MAX_TOOLCALL_STEPS :: int where
  "MAX_TOOLCALL_STEPS = 5"

text \<open>The body of a completion request (\<^verbatim>\<open>stream: true\<close> is constant).\<close>

record request =
  rq_model :: string
  rq_messages :: "message list"
  rq_tools :: "tool list option"

text \<open>An entry of the list the tool catalog answers with.\<close>

record suggested =
  st_name :: string
  st_similarity :: real

datatype error =
    EmptyMessages
  | TypeError
  | Rejected string

text \<open>
  \<^verbatim>\<open>EmptyMessages\<close> is \<^verbatim>\<open>new Error("Messages array is empty")\<close>, \<^verbatim>\<open>TypeError\<close> is
  what reading a property of \<^verbatim>\<open>undefined\<close> throws, and \<^verbatim>\<open>Rejected\<close> is a failure
  raised inside a collaborator (the catalog, the provider, the stream, the store).
\<close>

datatype log_entry =
    LogRunning
  | LogSuggested "(string \<times> real) list"
  | LogStep int nat
  | LogToolCalls "tool_call list"
  | LogSaved "role option" string "nat option"
  | LogSaveFailed error

datatype out_record =
    Fragment delta string
  | ToolResult message

datatype event =
    Console log_entry
  | CatalogQuery string
  | CompletionRequest request
  | Enqueue out_record
  | CreateMessage "message option" "error option"
  | Close

text \<open>
  What a reader of the provider's stream gets, one element per \<^verbatim>\<open>reader.read()\<close>
  that is not \<^verbatim>\<open>done\<close>: the chunk that \<^verbatim>\<open>JSON.parse\<close> yields, or the error with
  which the read or the parse fails. The stream is finite.
\<close>

type_synonym stream = "(error + chunk) list"

subsection \<open>The fields of the class and the machine state\<close>

record agent =
  threadID :: string
  maxToolCallSteps :: int
  save :: bool
  model :: "string option"
  currentMessages :: "message list"
  tools :: "tool list"
  steps :: int

text \<open>
  The machine adds what lies outside the object: the state \<open>world\<close> of the
  collaborators, the \<open>trace\<close> of effects, and the arguments of the
  \<^verbatim>\<open>saveMessages\<close> calls whose promises were given to \<^verbatim>\<open>waitUntil\<close>.
\<close>

record 'w machine = agent +
  world :: 'w
  trace :: "event list"
  waitUntil :: "message option list list"

text \<open>
  The collaborators whose code is imported from other modules. Each takes the state
  of the outside world and returns it changed. \<^verbatim>\<open>mergeResponseObjects\<close> and
  \<^verbatim>\<open>processMessagesForLM\<close> are pure.
\<close>

record 'w env =
  getToolsByPrompt :: "string \<Rightarrow> 'w \<Rightarrow> (error + suggested list) \<times> 'w"
  processMessagesForLM :: "message list \<Rightarrow> string option"
  chat_completions_create :: "request \<Rightarrow> 'w \<Rightarrow> (error + stream) \<times> 'w"
  mergeResponseObjects :: "chunk \<Rightarrow> chunk \<Rightarrow> chunk"
  uuidv4 :: "'w \<Rightarrow> string \<times> 'w"
  createMessage :: "message option \<Rightarrow> 'w \<Rightarrow> error option \<times> 'w"
  CHATGPT_DEFAULT_MODEL :: "string option"

record ResponderAgentParam =
  p_threadID :: string
  p_messages :: "message list"
  p_maxToolCallSteps :: "int option"
  p_save :: "bool option"
  p_model :: "string option"

text \<open>The constructor: a parameter left out takes its default.\<close>

definition ResponderAgent :: "ResponderAgentParam \<Rightarrow> 'w \<Rightarrow> 'w machine" where
  "ResponderAgent p w =
     \<lparr>threadID = p_threadID p,
      maxToolCallSteps =
        (case p_maxToolCallSteps p of None \<Rightarrow> MAX_TOOLCALL_STEPS | Some n \<Rightarrow> n),
      save = (case p_save p of None \<Rightarrow> True | Some b \<Rightarrow> b),
      model = p_model p,
      currentMessages = p_messages p,
      tools = mockTools,
      steps = 0,
      world = w,
      trace = [],
      waitUntil = []\<rparr>"

subsection \<open>Small pieces of JavaScript\<close>

definition emit :: "event \<Rightarrow> 'w machine \<Rightarrow> 'w machine" where
  "emit ev s = s\<lparr>trace := trace s @ [ev]\<rparr>"

text \<open>\<^verbatim>\<open>x || ""\<close> on a string that may be undefined.\<close>

definition or_empty :: "string option \<Rightarrow> string" where
  "or_empty x = (case x of None \<Rightarrow> [] | Some v \<Rightarrow> v)"

text \<open>\<^verbatim>\<open>a || b\<close> on strings that may be undefined: the empty string is falsy.\<close>

definition or_else :: "string option \<Rightarrow> string option \<Rightarrow> string option" where
  "or_else a b = (case a of None \<Rightarrow> b | Some v \<Rightarrow> if v = [] then b else Some v)"

text \<open>\<^verbatim>\<open>xs.slice(-n)\<close>: the last \<open>n\<close> elements, all of them when there are fewer.\<close>

definition slice_last :: "nat \<Rightarrow> 'a list \<Rightarrow> 'a list" where
  "slice_last n xs = drop (length xs - n) xs"

text \<open>\<^verbatim>\<open>xs[xs.length - 1]\<close>: undefined on the empty array.\<close>

definition last_element :: "'a list \<Rightarrow> 'a option" where
  "last_element xs = (case xs of [] \<Rightarrow> None | _ # _ \<Rightarrow> Some (last xs))"

text \<open>
  \<^verbatim>\<open>c.choices[0]\<close> followed by a property read: a \<^verbatim>\<open>TypeError\<close> when
  \<^verbatim>\<open>choices\<close> is undefined or empty.
\<close>

definition first_choice :: "chunk \<Rightarrow> error + choice" where
  "first_choice c =
     (case choices c of
        None \<Rightarrow> Inl TypeError
      | Some [] \<Rightarrow> Inl TypeError
      | Some (x # _) \<Rightarrow> Inr x)"

text \<open>The literal of \<^verbatim>\<open>executeTools\<close> (it reads "executed"), as its UTF-8 bytes.\<close>

definition executed_text :: string where
  "executed_text =
     map char_of
       [0xE5, 0xAE, 0x9F, 0xE8, 0xA1, 0x8C, 0xE3, 0x81, 0x97,
        0xE3, 0x81, 0xBE, 0xE3, 0x81, 0x97, 0xE3, 0x81, 0x9F :: nat]"

subsection \<open>The methods\<close>

text \<open>The query \<^verbatim>\<open>initialize\<close> sends to the tool catalog.\<close>

definition catalog_query :: "'w env \<Rightarrow> 'w machine \<Rightarrow> string" where
  "catalog_query env s =
     or_empty (processMessagesForLM env (slice_last 5 (currentMessages s)))"

definition initialize :: "'w env \<Rightarrow> 'w machine \<Rightarrow> error option \<times> 'w machine" where
  "initialize env s =
     (let s1 = emit (Console LogRunning) s in
      if currentMessages s1 = [] then (Some EmptyMessages, s1)
      else
        let query = catalog_query env s1;
            s2 = emit (CatalogQuery query) s1
        in case getToolsByPrompt env query (world s2) of
             (Inl e, w) \<Rightarrow> (Some e, s2\<lparr>world := w\<rparr>)
           | (Inr suggestedTools, w) \<Rightarrow>
               (None,
                emit (Console (LogSuggested
                        (map (\<lambda>tool. (st_name tool, st_similarity tool)) suggestedTools)))
                  (s2\<lparr>world := w\<rparr>)))"

text \<open>The argument of \<^verbatim>\<open>this.openai.chat.completions.create\<close> in \<^verbatim>\<open>fetch\<close>.\<close>

definition completion_request :: "'w env \<Rightarrow> 'w machine \<Rightarrow> request" where
  "completion_request env s =
     (let tools' = (if steps s < maxToolCallSteps s then Some (tools s) else None)
      in \<lparr>rq_model =
            (case or_else (or_else (model s) (CHATGPT_DEFAULT_MODEL env)) (Some ''gpt-4o'') of
               None \<Rightarrow> ''gpt-4o'' | Some m \<Rightarrow> m),
          rq_messages = currentMessages s,
          rq_tools = tools'\<rparr>)"

definition fetch :: "'w env \<Rightarrow> 'w machine \<Rightarrow> (error + stream) \<times> 'w machine" where
  "fetch env s =
     (let req = completion_request env s;
          s1 = emit (CompletionRequest req) s
      in case chat_completions_create env req (world s1) of
           (response, w) \<Rightarrow> (response, s1\<lparr>world := w\<rparr>))"

text \<open>
  The read loop of \<^verbatim>\<open>processResponse\<close>: merge the chunk, then enqueue its first
  choice's delta under the round's id.
\<close>

fun readLoop ::
  "'w env \<Rightarrow> string \<Rightarrow> stream \<Rightarrow> chunk \<Rightarrow> 'w machine \<Rightarrow> (error + chunk) \<times> 'w machine"
where
  "readLoop env uuid [] newChunkObject s = (Inr newChunkObject, s)"
| "readLoop env uuid (Inl e # rest) newChunkObject s = (Inl e, s)"
| "readLoop env uuid (Inr parsedChunk # rest) newChunkObject s =
     (let merged = mergeResponseObjects env newChunkObject parsedChunk
      in case first_choice parsedChunk of
           Inl e \<Rightarrow> (Inl e, s)
         | Inr c \<Rightarrow> readLoop env uuid rest merged (emit (Enqueue (Fragment (c_delta c) uuid)) s))"

definition message_of_delta :: "delta \<Rightarrow> string \<Rightarrow> string \<Rightarrow> message" where
  "message_of_delta d uuid thread =
     \<lparr>m_id = uuid, m_thread_id = thread, m_role = d_role d, m_content = d_content d,
      m_tool_calls = d_tool_calls d, m_tool_call_id = None\<rparr>"

definition processResponse ::
  "'w env \<Rightarrow> stream \<Rightarrow> 'w machine \<Rightarrow> (error + message \<times> chunk) \<times> 'w machine"
where
  "processResponse env reader s =
     (case uuidv4 env (world s) of
        (currentMessageUUID, w) \<Rightarrow>
          (case readLoop env currentMessageUUID reader \<lparr>choices = None\<rparr> (s\<lparr>world := w\<rparr>) of
             (Inl e, s1) \<Rightarrow> (Inl e, s1)
           | (Inr newChunkObject, s1) \<Rightarrow>
               (case first_choice newChunkObject of
                  Inl e \<Rightarrow> (Inl e, s1)
                | Inr c \<Rightarrow>
                    (Inr (message_of_delta (c_delta c) currentMessageUUID (threadID s1),
                          newChunkObject),
                     s1))))"

definition hasToolCall :: "chunk \<Rightarrow> error + bool" where
  "hasToolCall newChunkObject =
     (case first_choice newChunkObject of
        Inl e \<Rightarrow> Inl e
      | Inr c \<Rightarrow> Inr (c_finish_reason c = Some FR_tool_calls))"

definition tool_message :: "string \<Rightarrow> string \<Rightarrow> tool_call \<Rightarrow> message" where
  "tool_message uuid thread toolCall =
     \<lparr>m_id = uuid, m_thread_id = thread, m_role = Some R_tool,
      m_content = Some executed_text, m_tool_calls = None,
      m_tool_call_id = Some (or_empty (tc_id toolCall))\<rparr>"

text \<open>The \<^verbatim>\<open>map\<close> of \<^verbatim>\<open>executeTools\<close>: one \<^verbatim>\<open>uuidv4()\<close> per tool call, in order.\<close>

fun map_toolCalls :: "'w env \<Rightarrow> string \<Rightarrow> tool_call list \<Rightarrow> 'w \<Rightarrow> message list \<times> 'w" where
  "map_toolCalls env thread [] w = ([], w)"
| "map_toolCalls env thread (toolCall # rest) w =
     (case uuidv4 env w of
        (uuid, w1) \<Rightarrow>
          (case map_toolCalls env thread rest w1 of
             (result, w2) \<Rightarrow> (tool_message uuid thread toolCall # result, w2)))"

definition executeTools ::
  "'w env \<Rightarrow> tool_call list \<Rightarrow> 'w machine \<Rightarrow> message list \<times> 'w machine"
where
  "executeTools env toolCalls s =
     (let s1 = emit (Console (LogToolCalls toolCalls)) s
      in case map_toolCalls env (threadID s1) toolCalls (world s1) of
           (result, w) \<Rightarrow> (result, s1\<lparr>world := w\<rparr>))"

text \<open>The local \<^verbatim>\<open>toolCalls\<close> of \<^verbatim>\<open>handleToolCalls\<close>.\<close>

definition toolCalls_of :: "message \<Rightarrow> tool_call list" where
  "toolCalls_of newMessage =
     (if m_role newMessage = Some R_assistant
      then (case m_tool_calls newMessage of None \<Rightarrow> [] | Some tcs \<Rightarrow> tcs)
      else [])"

definition handleToolCalls ::
  "'w env \<Rightarrow> message \<Rightarrow> 'w machine \<Rightarrow> message list \<times> 'w machine"
where
  "handleToolCalls env newMessage s = executeTools env (toolCalls_of newMessage) s"

definition enqueue_results :: "message list \<Rightarrow> 'w machine \<Rightarrow> 'w machine" where
  "enqueue_results toolCallResults s =
     s\<lparr>trace := trace s @ map (\<lambda>result. Enqueue (ToolResult result)) toolCallResults\<rparr>"

text \<open>
  One pass through the body of the \<^verbatim>\<open>while\<close> of \<^verbatim>\<open>processSteps\<close>. The body ends
  by an exception, by \<^verbatim>\<open>break\<close>, or by reaching its end.
\<close>

datatype ending = Thrown error | Broke | Completed

definition loop_body ::
  "'w env \<Rightarrow> message option list \<Rightarrow> 'w machine \<Rightarrow> ending \<times> message option list \<times> 'w machine"
where
  "loop_body env messagesToSave s =
     (let s0 = emit (Console (LogStep (steps s) (length (currentMessages s)))) s
      in case fetch env s0 of
           (Inl e, s1) \<Rightarrow> (Thrown e, messagesToSave, s1)
         | (Inr responseStream, s1) \<Rightarrow>
             (case processResponse env responseStream s1 of
                (Inl e, s2) \<Rightarrow> (Thrown e, messagesToSave, s2)
              | (Inr (newMessage, newChunkObject), s2) \<Rightarrow>
                  (let toSave = messagesToSave @ [Some newMessage]
                   in case hasToolCall newChunkObject of
                        Inl e \<Rightarrow> (Thrown e, toSave, s2)
                      | Inr False \<Rightarrow>
                          (Broke, toSave,
                           s2\<lparr>currentMessages := currentMessages s2 @ [newMessage]\<rparr>)
                      | Inr True \<Rightarrow>
                          (case handleToolCalls env newMessage s2 of
                             (toolCallResults, s3) \<Rightarrow>
                               (let s4 = enqueue_results toolCallResults s3;
                                    toSave' =
                                      (if save s4 then toSave @ map Some toolCallResults
                                       else toSave)
                                in (Completed, toSave',
                                    s4\<lparr>currentMessages :=
                                         currentMessages s4 @ newMessage # toolCallResults,
                                       steps := steps s4 + 1\<rparr>))))))"

text \<open>
  Every method below the loop changes only the outside world and the trace. This is
  needed before the loop can be defined, because the loop ends by the counter
  \<open>steps\<close> reaching the bound.
\<close>

lemma fetch_frame:
  "fetch env s = (r, s') \<Longrightarrow> s' = s\<lparr>world := world s', trace := trace s'\<rparr>"
  by (auto simp: fetch_def Let_def emit_def split: prod.splits)

lemma readLoop_frame:
  "readLoop env uuid reader acc s = (r, s') \<Longrightarrow> \<exists>t. s' = s\<lparr>trace := t\<rparr>"
proof (induction env uuid reader acc s rule: readLoop.induct)
  case (1 env uuid newChunkObject s)
  then have "s' = s\<lparr>trace := trace s\<rparr>" by simp
  then show ?case by blast
next
  case (2 env uuid e rest newChunkObject s)
  then have "s' = s\<lparr>trace := trace s\<rparr>" by simp
  then show ?case by blast
next
  case (3 env uuid parsedChunk rest newChunkObject s)
  show ?case
  proof (cases "first_choice parsedChunk")
    case (Inl e)
    with 3(2) have "s' = s\<lparr>trace := trace s\<rparr>" by simp
    then show ?thesis by blast
  next
    case (Inr c)
    let ?s1 = "emit (Enqueue (Fragment (c_delta c) uuid)) s"
    from 3(2) Inr
    have "readLoop env uuid rest (mergeResponseObjects env newChunkObject parsedChunk) ?s1
            = (r, s')"
      by (simp add: Let_def)
    from 3(1)[OF refl Inr this] obtain t where "s' = ?s1\<lparr>trace := t\<rparr>" by blast
    then have "s' = s\<lparr>trace := t\<rparr>" by (simp add: emit_def)
    then show ?thesis by blast
  qed
qed

lemma processResponse_frame:
  assumes "processResponse env reader s = (r, s')"
  shows "s' = s\<lparr>world := world s', trace := trace s'\<rparr>"
proof -
  obtain uuid w where u: "uuidv4 env (world s) = (uuid, w)"
    by (cases "uuidv4 env (world s)")
  obtain r1 s1 where l: "readLoop env uuid reader \<lparr>choices = None\<rparr> (s\<lparr>world := w\<rparr>) = (r1, s1)"
    by (cases "readLoop env uuid reader \<lparr>choices = None\<rparr> (s\<lparr>world := w\<rparr>)")
  from readLoop_frame[OF l] obtain t where s1: "s1 = s\<lparr>world := w, trace := t\<rparr>"
    by auto
  from assms u l have "s' = s1"
    by (auto simp: processResponse_def split: sum.splits)
  with s1 show ?thesis by simp
qed

lemma executeTools_frame:
  "executeTools env toolCalls s = (r, s') \<Longrightarrow> s' = s\<lparr>world := world s', trace := trace s'\<rparr>"
  by (auto simp: executeTools_def Let_def emit_def split: prod.splits)

lemma handleToolCalls_frame:
  "handleToolCalls env newMessage s = (r, s') \<Longrightarrow>
     s' = s\<lparr>world := world s', trace := trace s'\<rparr>"
  unfolding handleToolCalls_def by (rule executeTools_frame)

lemma loop_body_counter:
  assumes "loop_body env messagesToSave s = (Completed, toSave, s')"
  shows "steps s' = steps s + 1 \<and> maxToolCallSteps s' = maxToolCallSteps s"
proof -
  let ?s0 = "emit (Console (LogStep (steps s) (length (currentMessages s)))) s"
  obtain r1 s1 where f: "fetch env ?s0 = (r1, s1)"
    by (cases "fetch env ?s0")
  from assms f obtain responseStream where r1: "r1 = Inr responseStream"
    by (cases r1) (auto simp: loop_body_def Let_def)
  obtain r2 s2 where p: "processResponse env responseStream s1 = (r2, s2)"
    by (cases "processResponse env responseStream s1")
  from assms f r1 p obtain newMessage newChunkObject
    where r2: "r2 = Inr (newMessage, newChunkObject)"
    by (cases r2) (auto simp: loop_body_def Let_def)
  obtain toolCallResults s3 where h: "handleToolCalls env newMessage s2 = (toolCallResults, s3)"
    by (cases "handleToolCalls env newMessage s2")
  from assms f r1 p r2 h
  have s': "s' = (enqueue_results toolCallResults s3)
              \<lparr>currentMessages :=
                 currentMessages (enqueue_results toolCallResults s3)
                   @ newMessage # toolCallResults,
               steps := steps (enqueue_results toolCallResults s3) + 1\<rparr>"
    by (auto simp: loop_body_def Let_def split: sum.splits bool.splits if_splits)
  have "steps s1 = steps s \<and> maxToolCallSteps s1 = maxToolCallSteps s"
    by (subst (1 2) fetch_frame[OF f]) (simp add: emit_def)
  moreover have "steps s2 = steps s1 \<and> maxToolCallSteps s2 = maxToolCallSteps s1"
    by (subst (1 2) processResponse_frame[OF p]) simp
  moreover have "steps s3 = steps s2 \<and> maxToolCallSteps s3 = maxToolCallSteps s2"
    by (subst (1 2) handleToolCalls_frame[OF h]) simp
  ultimately show ?thesis
    by (simp add: s' enqueue_results_def)
qed

text \<open>
  The \<^verbatim>\<open>while\<close> of \<^verbatim>\<open>processSteps\<close>, with the local \<^verbatim>\<open>messagesToSave\<close> as an
  argument. The result says whether an exception left the loop.
\<close>

function loop ::
  "'w env \<Rightarrow> message option list \<Rightarrow> 'w machine
     \<Rightarrow> error option \<times> message option list \<times> 'w machine"
where
  "loop env messagesToSave s =
     (if steps s < maxToolCallSteps s then
        (case loop_body env messagesToSave s of
           (Thrown e, toSave, s') \<Rightarrow> (Some e, toSave, s')
         | (Broke, toSave, s') \<Rightarrow> (None, toSave, s')
         | (Completed, toSave, s') \<Rightarrow> loop env toSave s')
      else (None, messagesToSave, s))"
  by pat_completeness auto
termination
proof (relation "measure (\<lambda>(env, messagesToSave, s). nat (maxToolCallSteps s - steps s))")
  show "wf (measure (\<lambda>(env :: 'w env, messagesToSave :: message option list, s :: 'w machine).
              nat (maxToolCallSteps s - steps s)))"
    by simp
next
  fix env :: "'w env" and messagesToSave s x1 x2 toSave s'
  assume "steps s < maxToolCallSteps s"
    and "(x1, x2) = loop_body env messagesToSave s"
    and "(toSave, s') = x2"
    and "x1 = Completed"
  then have "loop_body env messagesToSave s = (Completed, toSave, s')"
    by simp
  from loop_body_counter[OF this] \<open>steps s < maxToolCallSteps s\<close>
  show "((env, toSave, s'), (env, messagesToSave, s))
          \<in> measure (\<lambda>(env, messagesToSave, s). nat (maxToolCallSteps s - steps s))"
    by simp
qed

declare loop.simps [simp del]

definition processSteps :: "'w env \<Rightarrow> 'w machine \<Rightarrow> error option \<times> 'w machine" where
  "processSteps env s =
     (let messagesToSave = [last_element (currentMessages s)]
      in case loop env messagesToSave s of
           (Some e, toSave, s') \<Rightarrow> (Some e, s')
         | (None, toSave, s') \<Rightarrow> (None, s'\<lparr>waitUntil := waitUntil s' @ [toSave]\<rparr>))"

text \<open>
  The suffix \<^verbatim>\<open>(n tool calls)\<close> of the line \<^verbatim>\<open>saveMessages\<close> logs: present for an
  assistant message with a non-empty \<^verbatim>\<open>tool_calls\<close>.
\<close>

definition tool_calls_suffix :: "message \<Rightarrow> nat option" where
  "tool_calls_suffix m =
     (if m_role m = Some R_assistant
      then (case m_tool_calls m of
              None \<Rightarrow> None
            | Some tcs \<Rightarrow> if length tcs = 0 then None else Some (length tcs))
      else None)"

text \<open>
  The \<^verbatim>\<open>for await\<close> of \<^verbatim>\<open>saveMessages\<close>, inside the \<^verbatim>\<open>try\<close>. The event
  \<^verbatim>\<open>CreateMessage m r\<close> is the call of the store on \<open>m\<close> and how it settled. After a
  store that succeeded on \<^verbatim>\<open>undefined\<close>, reading \<^verbatim>\<open>message.role\<close> throws.
\<close>

fun save_loop ::
  "'w env \<Rightarrow> message option list \<Rightarrow> 'w machine \<Rightarrow> error option \<times> 'w machine"
where
  "save_loop env [] s = (None, s)"
| "save_loop env (message # rest) s =
     (case createMessage env message (world s) of
        (r, w) \<Rightarrow>
          (let s1 = emit (CreateMessage message r) (s\<lparr>world := w\<rparr>)
           in case r of
                Some e \<Rightarrow> (Some e, s1)
              | None \<Rightarrow>
                  (case message of
                     None \<Rightarrow> (Some TypeError, s1)
                   | Some m \<Rightarrow>
                       save_loop env rest
                         (emit (Console (LogSaved (m_role m) (or_empty (m_content m))
                                           (tool_calls_suffix m))) s1))))"

text \<open>
  \<^verbatim>\<open>saveMessages\<close>: the \<^verbatim>\<open>catch\<close> turns an exception of the loop into a line on
  \<^verbatim>\<open>console.error\<close>. The first component is the exception that leaves the method.
\<close>

definition saveMessages ::
  "'w env \<Rightarrow> message option list \<Rightarrow> 'w machine \<Rightarrow> error option \<times> 'w machine"
where
  "saveMessages env newMessages s =
     (case save_loop env newMessages s of
        (None, s') \<Rightarrow> (None, s')
      | (Some error, s') \<Rightarrow> (None, emit (Console (LogSaveFailed error)) s'))"

definition finalize :: "'w machine \<Rightarrow> 'w machine" where
  "finalize s = emit Close s"

text \<open>
  \<^verbatim>\<open>run\<close>. An exception of \<^verbatim>\<open>initialize\<close> rejects the promise \<^verbatim>\<open>run\<close> returns
  (\<open>Inl\<close>). After it the caller holds the output stream, which ends closed or, when
  \<^verbatim>\<open>processSteps\<close> throws inside \<^verbatim>\<open>start\<close>, errored.
\<close>

datatype stream_end = Closed | Errored error

definition run :: "'w env \<Rightarrow> 'w machine \<Rightarrow> (error + stream_end) \<times> 'w machine" where
  "run env s =
     (case initialize env s of
        (Some e, s1) \<Rightarrow> (Inl e, s1)
      | (None, s1) \<Rightarrow>
          (case processSteps env s1 of
             (Some e, s2) \<Rightarrow> (Inr (Errored e), s2)
           | (None, s2) \<Rightarrow> (Inr Closed, finalize s2)))"

subsection \<open>Reading the trace\<close>

text \<open>The completion requests issued, in order.\<close>

fun request_of :: "event \<Rightarrow> request list" where
  "request_of (CompletionRequest r) = [r]"
| "request_of _ = []"

definition requests_of :: "event list \<Rightarrow> request list" where
  "requests_of tr = concat (map request_of tr)"

text \<open>The tool messages forwarded to the output stream, in order.\<close>

fun tool_result_of :: "event \<Rightarrow> message list" where
  "tool_result_of (Enqueue (ToolResult m)) = [m]"
| "tool_result_of _ = []"

definition tool_results_of :: "event list \<Rightarrow> message list" where
  "tool_results_of tr = concat (map tool_result_of tr)"

text \<open>The calls of \<^verbatim>\<open>executeTools\<close>, each with the tool calls it was given.\<close>

fun dispatch_of :: "event \<Rightarrow> tool_call list list" where
  "dispatch_of (Console (LogToolCalls tcs)) = [tcs]"
| "dispatch_of _ = []"

definition dispatches_of :: "event list \<Rightarrow> tool_call list list" where
  "dispatches_of tr = concat (map dispatch_of tr)"

text \<open>The queries sent to the tool catalog.\<close>

fun catalog_query_of :: "event \<Rightarrow> string list" where
  "catalog_query_of (CatalogQuery q) = [q]"
| "catalog_query_of _ = []"

definition catalog_queries_of :: "event list \<Rightarrow> string list" where
  "catalog_queries_of tr = concat (map catalog_query_of tr)"

text \<open>The messages given to the store, and those of them it stored.\<close>

fun attempt_of :: "event \<Rightarrow> message option list" where
  "attempt_of (CreateMessage m r) = [m]"
| "attempt_of _ = []"

definition attempted_of :: "event list \<Rightarrow> message option list" where
  "attempted_of tr = concat (map attempt_of tr)"

fun store_of :: "event \<Rightarrow> message option list" where
  "store_of (CreateMessage m None) = [m]"
| "store_of _ = []"

definition stored_of :: "event list \<Rightarrow> message option list" where
  "stored_of tr = concat (map store_of tr)"

text \<open>The errors written by the \<^verbatim>\<open>catch\<close> of \<^verbatim>\<open>saveMessages\<close>.\<close>

fun save_failure_of :: "event \<Rightarrow> error list" where
  "save_failure_of (Console (LogSaveFailed e)) = [e]"
| "save_failure_of _ = []"

definition save_failures_of :: "event list \<Rightarrow> error list" where
  "save_failures_of tr = concat (map save_failure_of tr)"

text \<open>The fragments one round enqueues for the chunks it read.\<close>

definition fragments :: "string \<Rightarrow> chunk list \<Rightarrow> event list" where
  "fragments uuid cs =
     concat (map (\<lambda>c. case first_choice c of
                        Inl e \<Rightarrow> []
                      | Inr ch \<Rightarrow> [Enqueue (Fragment (c_delta ch) uuid)]) cs)"

subsection \<open>The provider's answers\<close>

text \<open>The chunks of a stream, and the object \<^verbatim>\<open>processResponse\<close> merges them into.\<close>

definition chunks_of :: "stream \<Rightarrow> chunk list" where
  "chunks_of reader = concat (map (\<lambda>x. case x of Inl e \<Rightarrow> [] | Inr c \<Rightarrow> [c]) reader)"

definition merged_response :: "'w env \<Rightarrow> chunk list \<Rightarrow> chunk" where
  "merged_response env cs = foldl (mergeResponseObjects env) \<lparr>choices = None\<rparr> cs"

text \<open>A stream every read of which yields a chunk that has a first choice.\<close>

definition readable :: "stream \<Rightarrow> bool" where
  "readable reader =
     list_all (\<lambda>x. case x of
                     Inl e \<Rightarrow> False
                   | Inr c \<Rightarrow> (case first_choice c of Inl e \<Rightarrow> False | Inr ch \<Rightarrow> True))
       reader"

text \<open>
  A provider that answers every request, in every state, with a readable stream whose
  merged response has the finish reason \<^verbatim>\<open>tool_calls\<close>.
\<close>

definition always_tool_calls :: "'w env \<Rightarrow> bool" where
  "always_tool_calls env \<longleftrightarrow>
     (\<forall>req w. case chat_completions_create env req w of
                (Inl e, w') \<Rightarrow> False
              | (Inr reader, w') \<Rightarrow>
                  readable reader \<and>
                  hasToolCall (merged_response env (chunks_of reader)) = Inr True)"

text \<open>The ids that \<open>n\<close> successive calls of \<^verbatim>\<open>uuidv4()\<close> return.\<close>

fun uuids :: "'w env \<Rightarrow> nat \<Rightarrow> 'w \<Rightarrow> string list" where
  "uuids env 0 w = []"
| "uuids env (Suc n) w = (case uuidv4 env w of (uuid, w') \<Rightarrow> uuid # uuids env n w')"

text \<open>
  The messages of a run, round by round: a round is the assistant message it
  finalized and the tool messages dispatched for it.
\<close>

definition round_messages :: "(message \<times> message list) list \<Rightarrow> message list" where
  "round_messages rounds = concat (map (\<lambda>(newMessage, results). newMessage # results) rounds)"

subsection \<open>A merger and a simulated outside world, for concrete runs\<close>

text \<open>
  Modelled from the spec: \<^verbatim>\<open>mergeResponseObjects\<close> of \<^verbatim>\<open>@/utils/mergeResponseObject\<close>
  is imported by the agent and its code is not among the sources. The Delta Merger of
  the specification appends content, merges tool-call pieces by index (a new index is
  inserted after the others, an old one gets the arguments concatenated and adopts an
  id or a name that newly appears), and lets the most recent finish indicator win.
\<close>

definition adopt :: "'a option \<Rightarrow> 'a option \<Rightarrow> 'a option" where
  "adopt old new = (case new of None \<Rightarrow> old | Some v \<Rightarrow> Some v)"

definition append_text :: "string option \<Rightarrow> string option \<Rightarrow> string option" where
  "append_text old new = (case new of None \<Rightarrow> old | Some v \<Rightarrow> Some (or_empty old @ v))"

fun merge_piece :: "tool_call list \<Rightarrow> tool_call \<Rightarrow> tool_call list" where
  "merge_piece [] piece = [piece]"
| "merge_piece (entry # entries) piece =
     (if tc_index entry = tc_index piece
      then entry\<lparr>tc_id := adopt (tc_id entry) (tc_id piece),
                 tc_name := adopt (tc_name entry) (tc_name piece),
                 tc_arguments := append_text (tc_arguments entry) (tc_arguments piece)\<rparr>
             # entries
      else entry # merge_piece entries piece)"

definition merge_delta :: "delta \<Rightarrow> delta \<Rightarrow> delta" where
  "merge_delta acc next =
     \<lparr>d_role = adopt (d_role acc) (d_role next),
      d_content = append_text (d_content acc) (d_content next),
      d_tool_calls =
        (case d_tool_calls next of
           None \<Rightarrow> d_tool_calls acc
         | Some pieces \<Rightarrow>
             Some (foldl merge_piece
                     (case d_tool_calls acc of None \<Rightarrow> [] | Some entries \<Rightarrow> entries)
                     pieces))\<rparr>"

definition Delta_Merger :: "chunk \<Rightarrow> chunk \<Rightarrow> chunk" where
  "Delta_Merger acc next =
     (case first_choice next of
        Inl e \<Rightarrow> acc
      | Inr n \<Rightarrow>
          (case first_choice acc of
             Inl e \<Rightarrow> \<lparr>choices = Some [n]\<rparr>
           | Inr a \<Rightarrow>
               \<lparr>choices =
                  Some [\<lparr>c_delta = merge_delta (c_delta a) (c_delta n),
                         c_finish_reason =
                           adopt (c_finish_reason a) (c_finish_reason n)\<rparr>]\<rparr>))"

text \<open>
  The simulated world: a counter from which ids are drawn, and a message store that
  counts the calls it gets and keeps the rows it stored.
\<close>

record sim =
  next_uuid :: nat
  store_calls :: nat
  rows :: "message list"

definition sim0 :: sim where
  "sim0 = \<lparr>next_uuid = 0, store_calls = 0, rows = []\<rparr>"

definition sim_uuidv4 :: "sim \<Rightarrow> string \<times> sim" where
  "sim_uuidv4 w = (CHR ''u'' # replicate (next_uuid w) (CHR ''i''),
                   w\<lparr>next_uuid := Suc (next_uuid w)\<rparr>)"

text \<open>A store that fails on the call numbered \<open>failing\<close> (from 0), and on no row.\<close>

definition sim_createMessage :: "nat option \<Rightarrow> message option \<Rightarrow> sim \<Rightarrow> error option \<times> sim" where
  "sim_createMessage failing m w =
     (let w1 = w\<lparr>store_calls := Suc (store_calls w)\<rparr>
      in if failing = Some (store_calls w) then (Some (Rejected ''insert failed''), w1)
         else (case m of
                 None \<Rightarrow> (Some (Rejected ''no row''), w1)
               | Some row \<Rightarrow> (None, w1\<lparr>rows := rows w1 @ [row]\<rparr>)))"

definition sim_env :: "(request \<Rightarrow> stream) \<Rightarrow> sim env" where
  "sim_env provider =
     \<lparr>getToolsByPrompt = (\<lambda>query w. (Inr [], w)),
      processMessagesForLM = (\<lambda>ms. Some (concat (map (\<lambda>m. or_empty (m_content m)) ms))),
      chat_completions_create = (\<lambda>req w. (Inr (provider req), w)),
      mergeResponseObjects = Delta_Merger,
      uuidv4 = sim_uuidv4,
      createMessage = sim_createMessage None,
      CHATGPT_DEFAULT_MODEL = None\<rparr>"

definition text_chunk :: "role option \<Rightarrow> string \<Rightarrow> chunk" where
  "text_chunk r txt =
     \<lparr>choices = Some [\<lparr>c_delta = \<lparr>d_role = r, d_content = Some txt, d_tool_calls = None\<rparr>,
                        c_finish_reason = None\<rparr>]\<rparr>"

definition call_chunk :: "role option \<Rightarrow> tool_call \<Rightarrow> chunk" where
  "call_chunk r piece =
     \<lparr>choices = Some [\<lparr>c_delta = \<lparr>d_role = r, d_content = None, d_tool_calls = Some [piece]\<rparr>,
                        c_finish_reason = None\<rparr>]\<rparr>"

definition finish_chunk :: "finish_reason \<Rightarrow> chunk" where
  "finish_chunk fr =
     \<lparr>choices = Some [\<lparr>c_delta = \<lparr>d_role = None, d_content = None, d_tool_calls = None\<rparr>,
                        c_finish_reason = Some fr\<rparr>]\<rparr>"

text \<open>A stream that asks for one tool call, its arguments split over two chunks.\<close>

definition weather_call_stream :: stream where
  "weather_call_stream =
     [Inr (call_chunk (Some R_assistant)
             \<lparr>tc_index = 0, tc_id = Some ''call_1'',
              tc_name = Some ''get_current_weather'', tc_arguments = Some ''{location: ''\<rparr>),
      Inr (call_chunk None
             \<lparr>tc_index = 0, tc_id = None, tc_name = None, tc_arguments = Some ''Tokyo}''\<rparr>),
      Inr (finish_chunk FR_tool_calls)]"

text \<open>A stream that answers in words and stops.\<close>

definition sunny_stream :: stream where
  "sunny_stream =
     [Inr (text_chunk (Some R_assistant) ''It is ''),
      Inr (text_chunk None ''sunny.''),
      Inr (finish_chunk FR_stop)]"

text \<open>The provider of the specification's scenario: a tool call first, then the answer.\<close>

definition weather_provider :: "request \<Rightarrow> stream" where
  "weather_provider req =
     (if list_ex (\<lambda>m. m_role m = Some R_tool) (rq_messages req) then sunny_stream
      else weather_call_stream)"

definition system_message :: message where
  "system_message =
     \<lparr>m_id = ''m0'', m_thread_id = ''t1'', m_role = Some R_system,
      m_content = Some ''You are a helpful assistant.'', m_tool_calls = None,
      m_tool_call_id = None\<rparr>"

definition user_message :: message where
  "user_message =
     \<lparr>m_id = ''m1'', m_thread_id = ''t1'', m_role = Some R_user,
      m_content = Some ''What is the weather in Tokyo?'', m_tool_calls = None,
      m_tool_call_id = None\<rparr>"

text \<open>An agent as the constructor builds it, over the simulated world.\<close>

definition sim_agent :: "message list \<Rightarrow> int option \<Rightarrow> bool option \<Rightarrow> sim machine" where
  "sim_agent history max_steps persist =
     ResponderAgent
       \<lparr>p_threadID = ''t1'', p_messages = history, p_maxToolCallSteps = max_steps,
        p_save = persist, p_model = None\<rparr>
       sim0"

text \<open>The simulated world with a tool catalog that is down.\<close>

definition catalog_down_env :: "sim env" where
  "catalog_down_env =
     (sim_env weather_provider)
       \<lparr>getToolsByPrompt := (\<lambda>query w. (Inl (Rejected ''catalog unavailable''), w))\<rparr>"

text \<open>The simulated world with a store that fails on the second call it gets.\<close>

definition failing_store_env :: "sim env" where
  "failing_store_env =
     (sim_env weather_provider)\<lparr>createMessage := sim_createMessage (Some 1)\<rparr>"

definition five_messages :: "message list" where
  "five_messages =
     map (\<lambda>i. user_message\<lparr>m_id := i\<rparr>) [''a1'', ''a2'', ''a3'', ''a4'', ''a5'']"

section \<open>Properties\<close>

subsection \<open>What each method does to the state\<close>

lemma requests_of_simps [simp]:
  "requests_of [] = []"
  "requests_of (e # tr) = request_of e @ requests_of tr"
  "requests_of (tr @ tr') = requests_of tr @ requests_of tr'"
  by (simp_all add: requests_of_def)

lemma tool_results_of_simps [simp]:
  "tool_results_of [] = []"
  "tool_results_of (e # tr) = tool_result_of e @ tool_results_of tr"
  "tool_results_of (tr @ tr') = tool_results_of tr @ tool_results_of tr'"
  by (simp_all add: tool_results_of_def)

lemma dispatches_of_simps [simp]:
  "dispatches_of [] = []"
  "dispatches_of (e # tr) = dispatch_of e @ dispatches_of tr"
  "dispatches_of (tr @ tr') = dispatches_of tr @ dispatches_of tr'"
  by (simp_all add: dispatches_of_def)

lemma fragments_quiet [simp]:
  "requests_of (fragments uuid cs) = []"
  "tool_results_of (fragments uuid cs) = []"
  "dispatches_of (fragments uuid cs) = []"
  by (induction cs) (auto simp: fragments_def split: sum.splits)

lemma tool_results_of_map [simp]:
  "tool_results_of (map (\<lambda>result. Enqueue (ToolResult result)) ms) = ms"
  "requests_of (map (\<lambda>result. Enqueue (ToolResult result)) ms) = []"
  "dispatches_of (map (\<lambda>result. Enqueue (ToolResult result)) ms) = []"
  by (induction ms) auto

lemma fetch_result:
  assumes "fetch env s = (r, s')"
  shows "s' = s\<lparr>world := world s',
                trace := trace s @ [CompletionRequest (completion_request env s)]\<rparr>"
    and "chat_completions_create env (completion_request env s) (world s) = (r, world s')"
  using assms by (auto simp: fetch_def Let_def emit_def split: prod.splits)

lemma readLoop_result:
  "readLoop env uuid reader acc s = (r, s') \<Longrightarrow>
     \<exists>cs. s' = s\<lparr>trace := trace s @ fragments uuid cs\<rparr>"
proof (induction env uuid reader acc s rule: readLoop.induct)
  case (1 env uuid newChunkObject s)
  then have "s' = s\<lparr>trace := trace s @ fragments uuid []\<rparr>" by (simp add: fragments_def)
  then show ?case by blast
next
  case (2 env uuid e rest newChunkObject s)
  then have "s' = s\<lparr>trace := trace s @ fragments uuid []\<rparr>" by (simp add: fragments_def)
  then show ?case by blast
next
  case (3 env uuid parsedChunk rest newChunkObject s)
  show ?case
  proof (cases "first_choice parsedChunk")
    case (Inl e)
    with 3(2) have "s' = s\<lparr>trace := trace s @ fragments uuid []\<rparr>"
      by (simp add: fragments_def)
    then show ?thesis by blast
  next
    case (Inr c)
    let ?s1 = "emit (Enqueue (Fragment (c_delta c) uuid)) s"
    from 3(2) Inr
    have "readLoop env uuid rest (mergeResponseObjects env newChunkObject parsedChunk) ?s1
            = (r, s')"
      by (simp add: Let_def)
    from 3(1)[OF refl Inr this]
    obtain cs where "s' = ?s1\<lparr>trace := trace ?s1 @ fragments uuid cs\<rparr>"
      by blast
    then have "s' = s\<lparr>trace := trace s @ fragments uuid (parsedChunk # cs)\<rparr>"
      using Inr by (simp add: emit_def fragments_def)
    then show ?thesis by blast
  qed
qed

lemma processResponse_result:
  assumes "processResponse env reader s = (r, s')"
  shows "\<exists>cs. s' = s\<lparr>world := snd (uuidv4 env (world s)),
                      trace := trace s @ fragments (fst (uuidv4 env (world s))) cs\<rparr>"
proof -
  obtain uuid w where u: "uuidv4 env (world s) = (uuid, w)"
    by (cases "uuidv4 env (world s)")
  obtain r1 s1 where l: "readLoop env uuid reader \<lparr>choices = None\<rparr> (s\<lparr>world := w\<rparr>) = (r1, s1)"
    by (cases "readLoop env uuid reader \<lparr>choices = None\<rparr> (s\<lparr>world := w\<rparr>)")
  from readLoop_result[OF l] obtain cs
    where s1: "s1 = s\<lparr>world := w, trace := trace s @ fragments uuid cs\<rparr>"
    by auto
  from assms u l have "s' = s1"
    by (auto simp: processResponse_def split: sum.splits)
  with s1 u show ?thesis by auto
qed

lemma handleToolCalls_result:
  assumes "handleToolCalls env newMessage s = (results, s')"
  shows "s' = s\<lparr>world := world s',
                trace := trace s @ [Console (LogToolCalls (toolCalls_of newMessage))]\<rparr>"
  using assms
  by (auto simp: handleToolCalls_def executeTools_def Let_def emit_def split: prod.splits)

lemma loop_body_Completed:
  assumes "loop_body env messagesToSave s = (Completed, toSave, s')"
  shows "\<exists>newMessage results uuid cs.
           s' = s\<lparr>currentMessages := currentMessages s @ newMessage # results,
                   steps := steps s + 1,
                   world := world s',
                   trace := trace s
                     @ [Console (LogStep (steps s) (length (currentMessages s))),
                        CompletionRequest (completion_request env s)]
                     @ fragments uuid cs
                     @ [Console (LogToolCalls (toolCalls_of newMessage))]
                     @ map (\<lambda>result. Enqueue (ToolResult result)) results\<rparr>
         \<and> toSave = messagesToSave @ Some newMessage
                      # (if save s then map Some results else [])"
proof -
  let ?s0 = "emit (Console (LogStep (steps s) (length (currentMessages s)))) s"
  obtain r1 s1 where f: "fetch env ?s0 = (r1, s1)"
    by (cases "fetch env ?s0")
  from assms f obtain responseStream where r1: "r1 = Inr responseStream"
    by (cases r1) (auto simp: loop_body_def Let_def)
  obtain r2 s2 where p: "processResponse env responseStream s1 = (r2, s2)"
    by (cases "processResponse env responseStream s1")
  from assms f r1 p obtain newMessage newChunkObject
    where r2: "r2 = Inr (newMessage, newChunkObject)"
    by (cases r2) (auto simp: loop_body_def Let_def)
  obtain results s3 where h: "handleToolCalls env newMessage s2 = (results, s3)"
    by (cases "handleToolCalls env newMessage s2")
  let ?s4 = "enqueue_results results s3"
  from assms f r1 p r2 h
  have s': "s' = ?s4\<lparr>currentMessages := currentMessages ?s4 @ newMessage # results,
                      steps := steps ?s4 + 1\<rparr>"
    and ts: "toSave = (if save ?s4 then (messagesToSave @ [Some newMessage]) @ map Some results
                       else messagesToSave @ [Some newMessage])"
    by (auto simp: loop_body_def Let_def split: sum.splits bool.splits if_splits)
  have req: "\<And>t. completion_request env (s\<lparr>trace := t\<rparr>) = completion_request env s"
    by (simp add: completion_request_def)
  define w1 where "w1 = world s1"
  define w3 where "w3 = world s3"
  from fetch_result(1)[OF f]
  have s1: "s1 = s\<lparr>world := w1,
                      trace := trace s
                        @ [Console (LogStep (steps s) (length (currentMessages s))),
                           CompletionRequest (completion_request env s)]\<rparr>"
    by (simp add: emit_def req w1_def)
  from processResponse_result[OF p] obtain cs
    where s2: "s2 = s1\<lparr>world := snd (uuidv4 env (world s1)),
                        trace := trace s1 @ fragments (fst (uuidv4 env (world s1))) cs\<rparr>"
    by blast
  from handleToolCalls_result[OF h]
  have s3: "s3 = s2\<lparr>world := w3,
                      trace := trace s2 @ [Console (LogToolCalls (toolCalls_of newMessage))]\<rparr>"
    by (simp add: w3_def)
  have w': "world s' = w3"
    by (simp add: s' s3 enqueue_results_def)
  let ?uuid = "fst (uuidv4 env w1)"
  have "s' = s\<lparr>currentMessages := currentMessages s @ newMessage # results,
                steps := steps s + 1,
                world := world s',
                trace := trace s
                  @ [Console (LogStep (steps s) (length (currentMessages s))),
                     CompletionRequest (completion_request env s)]
                  @ fragments ?uuid cs
                  @ [Console (LogToolCalls (toolCalls_of newMessage))]
                  @ map (\<lambda>result. Enqueue (ToolResult result)) results\<rparr>"
    unfolding w' by (simp add: s' s3 s2 s1 enqueue_results_def)
  moreover have "save ?s4 = save s"
    by (simp add: s3 s2 s1 enqueue_results_def)
  ultimately show ?thesis
    using ts by auto
qed



lemma readLoop_readable:
  "readable reader \<Longrightarrow>
     readLoop env uuid reader acc s
       = (Inr (foldl (mergeResponseObjects env) acc (chunks_of reader)),
          s\<lparr>trace := trace s @ fragments uuid (chunks_of reader)\<rparr>)"
proof (induction env uuid reader acc s rule: readLoop.induct)
  case (1 env uuid newChunkObject s)
  show ?case by (simp add: chunks_of_def fragments_def)
next
  case (2 env uuid e rest newChunkObject s)
  then show ?case by (simp add: readable_def)
next
  case (3 env uuid parsedChunk rest newChunkObject s)
  from 3(2) obtain c where c: "first_choice parsedChunk = Inr c" and rest: "readable rest"
    by (auto simp: readable_def split: sum.splits)
  from 3(1)[OF refl c rest] c show ?case
    by (simp add: chunks_of_def fragments_def emit_def)
qed

lemma processResponse_readable:
  assumes "readable reader"
    and "first_choice (merged_response env (chunks_of reader)) = Inr c"
    and "uuidv4 env (world s) = (uuid, w)"
  shows "processResponse env reader s
           = (Inr (message_of_delta (c_delta c) uuid (threadID s),
                   merged_response env (chunks_of reader)),
              s\<lparr>world := w, trace := trace s @ fragments uuid (chunks_of reader)\<rparr>)"
  using assms(2,3)
  by (simp add: processResponse_def readLoop_readable[OF assms(1)] merged_response_def)

lemma executeTools_world:
  "executeTools env toolCalls s
     = (fst (map_toolCalls env (threadID s) toolCalls (world s)),
        s\<lparr>world := snd (map_toolCalls env (threadID s) toolCalls (world s)),
          trace := trace s @ [Console (LogToolCalls toolCalls)]\<rparr>)"
  by (simp add: executeTools_def Let_def emit_def split: prod.splits)

text \<open>One round against a provider that always asks for tools runs to its end.\<close>

lemma loop_body_always_tool_calls:
  assumes "always_tool_calls env"
  shows "\<exists>toSave s'. loop_body env messagesToSave s = (Completed, toSave, s')"
proof -
  let ?s0 = "emit (Console (LogStep (steps s) (length (currentMessages s)))) s"
  obtain r1 s1 where f: "fetch env ?s0 = (r1, s1)"
    by (cases "fetch env ?s0")
  from fetch_result(2)[OF f]
  have cc: "chat_completions_create env (completion_request env ?s0) (world ?s0)
              = (r1, world s1)" .
  from assms[unfolded always_tool_calls_def, rule_format,
      of "completion_request env ?s0" "world ?s0"] cc
  obtain reader where r1: "r1 = Inr reader" and rd: "readable reader"
    and tc: "hasToolCall (merged_response env (chunks_of reader)) = Inr True"
    by (auto split: sum.splits)
  from tc obtain c where c: "first_choice (merged_response env (chunks_of reader)) = Inr c"
    by (auto simp: hasToolCall_def split: sum.splits)
  obtain uuid w where u: "uuidv4 env (world s1) = (uuid, w)"
    by (cases "uuidv4 env (world s1)")
  note p = processResponse_readable[OF rd c u]
  show ?thesis
    using f r1 p tc
    by (simp add: loop_body_def Let_def handleToolCalls_def executeTools_world)
qed

lemma rq_tools_completion_request:
  "rq_tools (completion_request env s)
     = (if steps s < maxToolCallSteps s then Some (tools s) else None)"
  by (simp add: completion_request_def)

lemma loop_always_tool_calls:
  assumes "always_tool_calls env"
  shows "n = nat (maxToolCallSteps s - steps s) \<Longrightarrow>
     \<exists>toSave s' reqs. loop env messagesToSave s = (None, toSave, s')
        \<and> requests_of (trace s') = requests_of (trace s) @ reqs
        \<and> length reqs = n
        \<and> list_all (\<lambda>r. rq_tools r = Some (tools s)) reqs
        \<and> length (dispatches_of (trace s')) = length (dispatches_of (trace s)) + n"
proof (induction n arbitrary: messagesToSave s)
  case 0
  then have "\<not> steps s < maxToolCallSteps s" by simp
  then have "loop env messagesToSave s = (None, messagesToSave, s)"
    by (simp add: loop.simps)
  then show ?case by simp
next
  case (Suc n)
  then have lt: "steps s < maxToolCallSteps s" by simp
  from loop_body_always_tool_calls[OF assms] obtain ts s1
    where b: "loop_body env messagesToSave s = (Completed, ts, s1)"
    by blast
  from loop_body_Completed[OF b] obtain newMessage results uuid cs
    where s1: "s1 = s\<lparr>currentMessages := currentMessages s @ newMessage # results,
                   steps := steps s + 1,
                   world := world s1,
                   trace := trace s
                     @ [Console (LogStep (steps s) (length (currentMessages s))),
                        CompletionRequest (completion_request env s)]
                     @ fragments uuid cs
                     @ [Console (LogToolCalls (toolCalls_of newMessage))]
                     @ map (\<lambda>result. Enqueue (ToolResult result)) results\<rparr>"
    by blast
  have st: "steps s1 = steps s + 1" "maxToolCallSteps s1 = maxToolCallSteps s"
    "tools s1 = tools s"
    by (subst s1, simp)+
  have tr: "requests_of (trace s1) = requests_of (trace s) @ [completion_request env s]"
    "length (dispatches_of (trace s1)) = length (dispatches_of (trace s)) + 1"
    by (subst s1, simp)+
  from Suc.prems st have "n = nat (maxToolCallSteps s1 - steps s1)" by simp
  from Suc.IH[OF this, of ts] obtain toSave s' reqs
    where l: "loop env ts s1 = (None, toSave, s')"
      and r: "requests_of (trace s') = requests_of (trace s1) @ reqs"
      and n: "length reqs = n"
      and a: "list_all (\<lambda>r. rq_tools r = Some (tools s1)) reqs"
      and d: "length (dispatches_of (trace s')) = length (dispatches_of (trace s1)) + n"
    by blast
  have "loop env messagesToSave s = (None, toSave, s')"
    using lt b l by (simp add: loop.simps)
  moreover have "requests_of (trace s')
                   = requests_of (trace s) @ (completion_request env s # reqs)"
    using r tr by simp
  moreover have "length (completion_request env s # reqs) = Suc n"
    using n by simp
  moreover have "list_all (\<lambda>r. rq_tools r = Some (tools s)) (completion_request env s # reqs)"
    using a lt st by (simp add: rq_tools_completion_request)
  moreover have "length (dispatches_of (trace s')) = length (dispatches_of (trace s)) + Suc n"
    using d tr by simp
  ultimately show ?case by blast
qed

lemma loop_bound_reached:
  "\<not> steps s < maxToolCallSteps s \<Longrightarrow> loop env messagesToSave s = (None, messagesToSave, s)"
  by (simp add: loop.simps)

lemma processSteps_bound_reached:
  "\<not> steps s < maxToolCallSteps s \<Longrightarrow>
     processSteps env s
       = (None, s\<lparr>waitUntil := waitUntil s @ [[last_element (currentMessages s)]]\<rparr>)"
  by (simp add: processSteps_def loop_bound_reached)

lemma always_tool_calls_sim:
  "always_tool_calls (sim_env (\<lambda>req. weather_call_stream))"
  by (simp add: always_tool_calls_def sim_env_def weather_call_stream_def readable_def
      first_choice_def call_chunk_def finish_chunk_def hasToolCall_def merged_response_def
      chunks_of_def Delta_Merger_def merge_delta_def adopt_def append_text_def or_empty_def)

subsection \<open>Initialization\<close>

lemma initialize_empty:
  "currentMessages s = [] \<Longrightarrow> initialize env s = (Some EmptyMessages, emit (Console LogRunning) s)"
  by (simp add: initialize_def Let_def emit_def)

lemma initialize_catalog:
  assumes "currentMessages s \<noteq> []"
    and "getToolsByPrompt env (catalog_query env s) (world s) = (r, w)"
  shows "initialize env s =
           (case r of
              Inl e \<Rightarrow>
                (Some e,
                 s\<lparr>world := w,
                   trace := trace s @ [Console LogRunning, CatalogQuery (catalog_query env s)]\<rparr>)
            | Inr suggestedTools \<Rightarrow>
                (None,
                 s\<lparr>world := w,
                   trace := trace s
                     @ [Console LogRunning, CatalogQuery (catalog_query env s),
                        Console (LogSuggested
                          (map (\<lambda>tool. (st_name tool, st_similarity tool)) suggestedTools))]\<rparr>))"
  using assms
  by (simp add: initialize_def Let_def emit_def catalog_query_def split: sum.splits)

subsection \<open>A stream without fragments\<close>

lemma loop_body_no_fragment:
  assumes "chat_completions_create env (completion_request env s) (world s) = (Inr [], w)"
  shows "loop_body env messagesToSave s
           = (Thrown TypeError, messagesToSave,
              s\<lparr>world := snd (uuidv4 env w),
                trace := trace s
                  @ [Console (LogStep (steps s) (length (currentMessages s))),
                     CompletionRequest (completion_request env s)]\<rparr>)"
proof -
  have req: "\<And>t. completion_request env (s\<lparr>trace := t\<rparr>) = completion_request env s"
    by (simp add: completion_request_def)
  show ?thesis
    using assms
    by (simp add: loop_body_def fetch_def Let_def emit_def req processResponse_def
        first_choice_def split: prod.splits)
qed

subsection \<open>Tool dispatch\<close>

lemma map_toolCalls_result:
  "map_toolCalls env thread toolCalls w = (result, w') \<Longrightarrow>
     result = map2 (\<lambda>uuid toolCall. tool_message uuid thread toolCall)
                (uuids env (length toolCalls) w) toolCalls"
proof (induction toolCalls arbitrary: w result w')
  case Nil
  then show ?case by simp
next
  case (Cons toolCall rest)
  obtain uuid w1 where u: "uuidv4 env w = (uuid, w1)"
    by (cases "uuidv4 env w")
  obtain ms w2 where m: "map_toolCalls env thread rest w1 = (ms, w2)"
    by (cases "map_toolCalls env thread rest w1")
  from Cons.prems u m have "result = tool_message uuid thread toolCall # ms"
    by simp
  with Cons.IH[OF m] u show ?case by simp
qed

lemma length_uuids [simp]: "length (uuids env n w) = n"
  by (induction n arbitrary: w) (auto split: prod.splits)

subsection \<open>The relay\<close>

lemma attempted_of_simps [simp]:
  "attempted_of [] = []"
  "attempted_of (e # tr) = attempt_of e @ attempted_of tr"
  "attempted_of (tr @ tr') = attempted_of tr @ attempted_of tr'"
  by (simp_all add: attempted_of_def)

lemma stored_of_simps [simp]:
  "stored_of [] = []"
  "stored_of (e # tr) = store_of e @ stored_of tr"
  "stored_of (tr @ tr') = stored_of tr @ stored_of tr'"
  by (simp_all add: stored_of_def)

lemma save_failures_of_simps [simp]:
  "save_failures_of [] = []"
  "save_failures_of (e # tr) = save_failure_of e @ save_failures_of tr"
  "save_failures_of (tr @ tr') = save_failures_of tr @ save_failures_of tr'"
  by (simp_all add: save_failures_of_def)

text \<open>
  The loop of \<^verbatim>\<open>saveMessages\<close> stores a prefix of the messages: it ends at the
  first message the store fails on.
\<close>

lemma save_loop_prefix:
  "save_loop env (map Some ms) s = (r, s') \<Longrightarrow>
     \<exists>k. k \<le> length ms
        \<and> stored_of (trace s') = stored_of (trace s) @ map Some (take k ms)
        \<and> save_failures_of (trace s') = save_failures_of (trace s)
        \<and> (case r of
              None \<Rightarrow> k = length ms
                \<and> attempted_of (trace s') = attempted_of (trace s) @ map Some ms
            | Some e \<Rightarrow> k < length ms
                \<and> attempted_of (trace s') = attempted_of (trace s) @ map Some (take (Suc k) ms))"
proof (induction ms arbitrary: s)
  case Nil
  then have "r = None" "s' = s" by simp_all
  then show ?case by simp
next
  case (Cons m ms)
  obtain r1 w where c: "createMessage env (Some m) (world s) = (r1, w)"
    by (cases "createMessage env (Some m) (world s)")
  let ?s1 = "emit (CreateMessage (Some m) r1) (s\<lparr>world := w\<rparr>)"
  show ?case
  proof (cases r1)
    case (Some e)
    with Cons.prems c have "r = Some e" "s' = ?s1"
      by (auto simp: Let_def)
    then have "0 \<le> length (m # ms)
        \<and> stored_of (trace s') = stored_of (trace s) @ map Some (take 0 (m # ms))
        \<and> save_failures_of (trace s') = save_failures_of (trace s)
        \<and> (case r of
              None \<Rightarrow> 0 = length (m # ms)
                \<and> attempted_of (trace s') = attempted_of (trace s) @ map Some (m # ms)
            | Some e \<Rightarrow> 0 < length (m # ms)
                \<and> attempted_of (trace s')
                    = attempted_of (trace s) @ map Some (take (Suc 0) (m # ms)))"
      using Some by (simp add: emit_def)
    then show ?thesis by blast
  next
    case None
    let ?s2 = "emit (Console (LogSaved (m_role m) (or_empty (m_content m))
                                (tool_calls_suffix m))) ?s1"
    from Cons.prems c None have "save_loop env (map Some ms) ?s2 = (r, s')"
      by (simp add: Let_def)
    from Cons.IH[OF this] obtain k where k: "k \<le> length ms"
      "stored_of (trace s') = stored_of (trace ?s2) @ map Some (take k ms)"
      "save_failures_of (trace s') = save_failures_of (trace ?s2)"
      "case r of
         None \<Rightarrow> k = length ms
           \<and> attempted_of (trace s') = attempted_of (trace ?s2) @ map Some ms
       | Some e \<Rightarrow> k < length ms
           \<and> attempted_of (trace s') = attempted_of (trace ?s2) @ map Some (take (Suc k) ms)"
      by blast
    have "Suc k \<le> length (m # ms)
        \<and> stored_of (trace s') = stored_of (trace s) @ map Some (take (Suc k) (m # ms))
        \<and> save_failures_of (trace s') = save_failures_of (trace s)
        \<and> (case r of
              None \<Rightarrow> Suc k = length (m # ms)
                \<and> attempted_of (trace s') = attempted_of (trace s) @ map Some (m # ms)
            | Some e \<Rightarrow> Suc k < length (m # ms)
                \<and> attempted_of (trace s')
                    = attempted_of (trace s) @ map Some (take (Suc (Suc k)) (m # ms)))"
      using k None by (simp add: emit_def split: option.splits)
    then show ?thesis by blast
  qed
qed

subsection \<open>The rounds of a run, and the flag \<^verbatim>\<open>save\<close>\<close>

lemma attempted_quiet [simp]:
  "attempted_of (fragments uuid cs) = []"
  "attempted_of (map (\<lambda>result. Enqueue (ToolResult result)) ms) = []"
proof -
  show "attempted_of (fragments uuid cs) = []"
    by (induction cs) (auto simp: fragments_def split: sum.splits)
  show "attempted_of (map (\<lambda>result. Enqueue (ToolResult result)) ms) = []"
    by (induction ms) auto
qed

lemma fetch_save:
  "fetch env (s\<lparr>save := b\<rparr>) = (case fetch env s of (r, s1) \<Rightarrow> (r, s1\<lparr>save := b\<rparr>))"
  by (simp add: fetch_def completion_request_def Let_def emit_def split: prod.splits)

lemma readLoop_save:
  "readLoop env uuid reader acc (s\<lparr>save := b\<rparr>)
     = (case readLoop env uuid reader acc s of (r, s1) \<Rightarrow> (r, s1\<lparr>save := b\<rparr>))"
proof (induction env uuid reader acc s rule: readLoop.induct)
  case (1 env uuid newChunkObject s)
  show ?case by simp
next
  case (2 env uuid e rest newChunkObject s)
  show ?case by simp
next
  case (3 env uuid parsedChunk rest newChunkObject s)
  show ?case
  proof (cases "first_choice parsedChunk")
    case (Inl e)
    then show ?thesis by simp
  next
    case (Inr c)
    have "emit (Enqueue (Fragment (c_delta c) uuid)) (s\<lparr>save := b\<rparr>)
            = (emit (Enqueue (Fragment (c_delta c) uuid)) s)\<lparr>save := b\<rparr>"
      by (simp add: emit_def)
    with 3[OF refl Inr] Inr show ?thesis
      by (simp add: Let_def)
  qed
qed

lemma processResponse_save:
  "processResponse env reader (s\<lparr>save := b\<rparr>)
     = (case processResponse env reader s of (r, s1) \<Rightarrow> (r, s1\<lparr>save := b\<rparr>))"
proof -
  obtain uuid w where u: "uuidv4 env (world s) = (uuid, w)"
    by (cases "uuidv4 env (world s)")
  obtain r1 s1 where l: "readLoop env uuid reader \<lparr>choices = None\<rparr> (s\<lparr>world := w\<rparr>) = (r1, s1)"
    by (cases "readLoop env uuid reader \<lparr>choices = None\<rparr> (s\<lparr>world := w\<rparr>)")
  have eq: "s\<lparr>save := b, world := w\<rparr> = (s\<lparr>world := w\<rparr>)\<lparr>save := b\<rparr>"
    by simp
  have l': "readLoop env uuid reader \<lparr>choices = None\<rparr> (s\<lparr>save := b, world := w\<rparr>)
                   = (r1, s1\<lparr>save := b\<rparr>)"
    unfolding eq readLoop_save l by simp
  show ?thesis
    using u l l' by (simp add: processResponse_def split: sum.splits)
qed



lemma loop_body_Broke_save:
  assumes "loop_body env messagesToSave s = (Broke, toSave, s')"
  shows "\<exists>newMessage.
           currentMessages s' = currentMessages s @ [newMessage]
         \<and> tool_results_of (trace s') = tool_results_of (trace s)
         \<and> dispatches_of (trace s') = dispatches_of (trace s)
         \<and> attempted_of (trace s') = attempted_of (trace s)
         \<and> requests_of (trace s') = requests_of (trace s) @ [completion_request env s]
         \<and> steps s' = steps s
         \<and> (\<forall>b toSave2. loop_body env toSave2 (s\<lparr>save := b\<rparr>)
               = (Broke, toSave2 @ [Some newMessage], s'\<lparr>save := b\<rparr>))"
proof -
  let ?s0 = "emit (Console (LogStep (steps s) (length (currentMessages s)))) s"
  obtain r1 s1 where f: "fetch env ?s0 = (r1, s1)"
    by (cases "fetch env ?s0")
  from assms f obtain responseStream where r1: "r1 = Inr responseStream"
    by (cases r1) (auto simp: loop_body_def Let_def)
  obtain r2 s2 where p: "processResponse env responseStream s1 = (r2, s2)"
    by (cases "processResponse env responseStream s1")
  from assms f r1 p obtain newMessage newChunkObject
    where r2: "r2 = Inr (newMessage, newChunkObject)"
    by (cases r2) (auto simp: loop_body_def Let_def)
  obtain results s3 where h: "handleToolCalls env newMessage s2 = (results, s3)"
    by (cases "handleToolCalls env newMessage s2")
  from assms f r1 p r2 h
  have tc: "hasToolCall newChunkObject = Inr False"
    and s': "s' = s2\<lparr>currentMessages := currentMessages s2 @ [newMessage]\<rparr>"
    by (auto simp: loop_body_def Let_def split: sum.splits bool.splits if_splits)
  have req: "\<And>t. completion_request env (s\<lparr>trace := t\<rparr>) = completion_request env s"
    by (simp add: completion_request_def)
  define w1 where "w1 = world s1"
  from fetch_result(1)[OF f]
  have s1: "s1 = s\<lparr>world := w1,
                      trace := trace s
                        @ [Console (LogStep (steps s) (length (currentMessages s))),
                           CompletionRequest (completion_request env s)]\<rparr>"
    by (simp add: emit_def req w1_def)
  from processResponse_result[OF p] obtain cs
    where s2: "s2 = s1\<lparr>world := snd (uuidv4 env (world s1)),
                        trace := trace s1 @ fragments (fst (uuidv4 env (world s1))) cs\<rparr>"
    by blast
  have facts: "currentMessages s' = currentMessages s @ [newMessage]"
    "tool_results_of (trace s') = tool_results_of (trace s)"
    "dispatches_of (trace s') = dispatches_of (trace s)"
    "attempted_of (trace s') = attempted_of (trace s)"
    "requests_of (trace s') = requests_of (trace s) @ [completion_request env s]"
    "steps s' = steps s"
    by (simp_all add: s' s2 s1)
  have flag: "loop_body env toSave2 (s\<lparr>save := b\<rparr>)
                = (Broke, toSave2 @ [Some newMessage], s'\<lparr>save := b\<rparr>)" for b toSave2
  proof -
    have e: "emit (Console (LogStep (steps (s\<lparr>save := b\<rparr>))
                     (length (currentMessages (s\<lparr>save := b\<rparr>))))) (s\<lparr>save := b\<rparr>)
               = ?s0\<lparr>save := b\<rparr>"
      by (simp add: emit_def)
    have f': "fetch env (?s0\<lparr>save := b\<rparr>) = (Inr responseStream, s1\<lparr>save := b\<rparr>)"
      using f r1 by (simp add: fetch_save)
    have p': "processResponse env responseStream (s1\<lparr>save := b\<rparr>)
                = (Inr (newMessage, newChunkObject), s2\<lparr>save := b\<rparr>)"
      using p r2 by (simp add: processResponse_save)
    show ?thesis
      unfolding loop_body_def e Let_def
      by (simp add: f' p' tc s')
  qed
  from facts flag show ?thesis by blast
qed

lemma round_messages_simps [simp]:
  "round_messages [] = []"
  "round_messages ((newMessage, results) # rounds) = newMessage # results @ round_messages rounds"
  by (simp_all add: round_messages_def)


lemmas sim_defs =
  sim_env_def sim_agent_def ResponderAgent_def sim0_def sim_uuidv4_def
  weather_provider_def sunny_stream_def weather_call_stream_def text_chunk_def call_chunk_def
  finish_chunk_def Delta_Merger_def merge_delta_def adopt_def append_text_def or_empty_def
  first_choice_def system_message_def user_message_def MAX_TOOLCALL_STEPS_def



lemma loop_body_no_tool_call:
  assumes "chat_completions_create env (completion_request env s) (world s) = (Inr reader, w)"
    and "readable reader"
    and "hasToolCall (merged_response env (chunks_of reader)) = Inr False"
  shows "\<exists>toSave s'. loop_body env messagesToSave s = (Broke, toSave, s')"
proof -
  have req: "\<And>t. completion_request env (s\<lparr>trace := t\<rparr>) = completion_request env s"
    by (simp add: completion_request_def)
  let ?s0 = "emit (Console (LogStep (steps s) (length (currentMessages s)))) s"
  have f: "fetch env ?s0
             = (Inr reader, ?s0\<lparr>trace := trace ?s0 @ [CompletionRequest (completion_request env s)],
                              world := w\<rparr>)"
    using assms(1) by (simp add: fetch_def Let_def emit_def req)
  from assms(3) obtain c where c: "first_choice (merged_response env (chunks_of reader)) = Inr c"
    by (auto simp: hasToolCall_def split: sum.splits)
  obtain uuid w' where u: "uuidv4 env w = (uuid, w')"
    by (cases "uuidv4 env w")
  let ?s1 = "?s0\<lparr>trace := trace ?s0 @ [CompletionRequest (completion_request env s)],
                 world := w\<rparr>"
  have u': "uuidv4 env (world ?s1) = (uuid, w')"
    using u by simp
  note p = processResponse_readable[OF assms(2) c u']
  show ?thesis
    unfolding loop_body_def Let_def f
    by (simp add: p assms(3))
qed

text \<open>
  Below the bound, a first response without a tool call ends the run after one round:
  one completion request, one message appended to the history, no call of
  \<^verbatim>\<open>executeTools\<close>, no tool message forwarded, and the counter unchanged.
\<close>

lemma processSteps_stops_below_bound:
  assumes "steps s < maxToolCallSteps s"
    and "chat_completions_create env (completion_request env s) (world s) = (Inr reader, w)"
    and "readable reader"
    and "hasToolCall (merged_response env (chunks_of reader)) = Inr False"
  shows "\<exists>s' newMessage. processSteps env s = (None, s')
           \<and> requests_of (trace s') = requests_of (trace s) @ [completion_request env s]
           \<and> currentMessages s' = currentMessages s @ [newMessage]
           \<and> dispatches_of (trace s') = dispatches_of (trace s)
           \<and> tool_results_of (trace s') = tool_results_of (trace s)
           \<and> steps s' = steps s"
proof -
  let ?first = "[last_element (currentMessages s)]"
  from loop_body_no_tool_call[OF assms(2,3,4)] obtain toSave s1
    where b: "loop_body env ?first s = (Broke, toSave, s1)"
    by blast
  from loop_body_Broke_save[OF b] obtain newMessage
    where n: "currentMessages s1 = currentMessages s @ [newMessage]"
      "tool_results_of (trace s1) = tool_results_of (trace s)"
      "dispatches_of (trace s1) = dispatches_of (trace s)"
      "requests_of (trace s1) = requests_of (trace s) @ [completion_request env s]"
      "steps s1 = steps s"
    by blast
  have "loop env ?first s = (None, toSave, s1)"
    using assms(1) b by (subst loop.simps) simp
  then have "processSteps env s = (None, s1\<lparr>waitUntil := waitUntil s1 @ [toSave]\<rparr>)"
    by (simp add: processSteps_def)
  with n show ?thesis by simp
qed

lemma processSteps_stops_below_bound_example:
  "steps (sim_agent [user_message] None None) < maxToolCallSteps (sim_agent [user_message] None None)
   \<and> chat_completions_create (sim_env (\<lambda>req. sunny_stream))
        (completion_request (sim_env (\<lambda>req. sunny_stream)) (sim_agent [user_message] None None))
        (world (sim_agent [user_message] None None)) = (Inr sunny_stream, sim0)
   \<and> readable sunny_stream
   \<and> hasToolCall (merged_response (sim_env (\<lambda>req. sunny_stream)) (chunks_of sunny_stream))
       = Inr False
   \<and> (\<exists>s' newMessage.
         processSteps (sim_env (\<lambda>req. sunny_stream)) (sim_agent [user_message] None None)
           = (None, s')
       \<and> length (requests_of (trace s')) = 1
       \<and> currentMessages s' = [user_message, newMessage]
       \<and> dispatches_of (trace s') = []
       \<and> tool_results_of (trace s') = []
       \<and> steps s' = 0)"
proof -
  let ?env = "sim_env (\<lambda>req. sunny_stream)"
  let ?s = "sim_agent [user_message] None None"
  have a: "steps ?s < maxToolCallSteps ?s"
    by (simp add: sim_agent_def ResponderAgent_def MAX_TOOLCALL_STEPS_def)
  have b: "chat_completions_create ?env (completion_request ?env ?s) (world ?s)
             = (Inr sunny_stream, sim0)"
    by (simp add: sim_env_def sim_agent_def ResponderAgent_def)
  have c: "readable sunny_stream"
    by (simp add: readable_def sunny_stream_def text_chunk_def finish_chunk_def first_choice_def)
  have d: "hasToolCall (merged_response ?env (chunks_of sunny_stream)) = Inr False"
    by (simp add: hasToolCall_def merged_response_def chunks_of_def sim_defs)
  have e: "trace ?s = []" "currentMessages ?s = [user_message]" "steps ?s = 0"
    by (simp_all add: sim_agent_def ResponderAgent_def)
  from processSteps_stops_below_bound[OF a b c d] a b c d show ?thesis
    unfolding e by auto
qed

section \<open>The claims\<close>

text \<open>
  Claim C1. Against a provider whose every merged response has the finish reason
  \<^verbatim>\<open>tool_calls\<close>, \<^verbatim>\<open>processSteps\<close> with the bound \<open>N\<close> returns after exactly \<open>N\<close>
  completion requests and \<open>N\<close> tool dispatches. Every one of the \<open>N\<close> requests carries
  the tool list: the guard of the \<^verbatim>\<open>while\<close> is the condition under which \<^verbatim>\<open>fetch\<close>
  includes the tools, so the request without tools that the claim expects after the
  \<open>N\<close>-th round is never issued.
\<close>

theorem processSteps_always_tool_calls:
  assumes "always_tool_calls env" and "steps s = 0" and "maxToolCallSteps s = int N"
  shows "\<exists>s' reqs. processSteps env s = (None, s')
           \<and> requests_of (trace s') = requests_of (trace s) @ reqs
           \<and> length reqs = N
           \<and> list_all (\<lambda>r. rq_tools r = Some (tools s)) reqs
           \<and> length (dispatches_of (trace s')) = length (dispatches_of (trace s)) + N"
proof -
  from assms(2,3) have "N = nat (maxToolCallSteps s - steps s)" by simp
  from loop_always_tool_calls[OF assms(1) this, of "[last_element (currentMessages s)]"]
  obtain toSave s1 reqs
    where l: "loop env [last_element (currentMessages s)] s = (None, toSave, s1)"
      and r: "requests_of (trace s1) = requests_of (trace s) @ reqs" "length reqs = N"
        "list_all (\<lambda>r. rq_tools r = Some (tools s)) reqs"
        "length (dispatches_of (trace s1)) = length (dispatches_of (trace s)) + N"
    by blast
  from l have "processSteps env s = (None, s1\<lparr>waitUntil := waitUntil s1 @ [toSave]\<rparr>)"
    by (simp add: processSteps_def)
  with r show ?thesis by simp
qed

text \<open>With the bound 2 the run issues two requests, both with the tools, and stops.\<close>

theorem processSteps_always_tool_calls_witness:
  "always_tool_calls (sim_env (\<lambda>req. weather_call_stream))
   \<and> steps (sim_agent [user_message] (Some 2) None) = 0
   \<and> maxToolCallSteps (sim_agent [user_message] (Some 2) None) = int 2
   \<and> fst (processSteps (sim_env (\<lambda>req. weather_call_stream))
            (sim_agent [user_message] (Some 2) None)) = None
   \<and> map rq_tools
        (requests_of (trace (snd (processSteps (sim_env (\<lambda>req. weather_call_stream))
                                    (sim_agent [user_message] (Some 2) None)))))
       = [Some mockTools, Some mockTools]"
proof -
  let ?env = "sim_env (\<lambda>req. weather_call_stream)"
  let ?s = "sim_agent [user_message] (Some 2) None"
  have a: "always_tool_calls ?env"
    by (rule always_tool_calls_sim)
  have b: "steps ?s = 0"
    by (simp add: sim_agent_def ResponderAgent_def)
  have c: "maxToolCallSteps ?s = int 2"
    by (simp add: sim_agent_def ResponderAgent_def)
  have t: "trace ?s = []" "tools ?s = mockTools"
    by (simp_all add: sim_agent_def ResponderAgent_def)
  from processSteps_always_tool_calls[OF a b c] obtain s' reqs
    where p: "processSteps ?env ?s = (None, s')"
      and r: "requests_of (trace s') = reqs" "length reqs = 2"
        "list_all (\<lambda>r. rq_tools r = Some mockTools) reqs"
    by (auto simp: t)
  from r(2) obtain x y where "reqs = [x, y]"
    by (auto simp: length_Suc_conv numeral_2_eq_2)
  with r have "map rq_tools (requests_of (trace s')) = [Some mockTools, Some mockTools]"
    by simp
  with p a b c show ?thesis by simp
qed

text \<open>
  Claim C2, as amended. \<^verbatim>\<open>saveMessages\<close> never passes an exception to its caller.
  It gives the messages to the store in order and stops at the first one the store
  fails on: for some \<open>k\<close> the stored messages are exactly the first \<open>k\<close>. When \<open>k\<close>
  is the number of messages, all were stored and nothing was written to
  \<^verbatim>\<open>console.error\<close>. Otherwise the message after the first \<open>k\<close> was the last one
  given to the store, its failure is the one line written to \<^verbatim>\<open>console.error\<close>, and
  the messages behind it were never given to the store.
\<close>

theorem saveMessages_stops_at_first_failure:
  "fst (saveMessages env (map Some ms) s) = None
   \<and> (\<exists>k. k \<le> length ms
        \<and> stored_of (trace (snd (saveMessages env (map Some ms) s)))
            = stored_of (trace s) @ map Some (take k ms)
        \<and> (if k = length ms
            then attempted_of (trace (snd (saveMessages env (map Some ms) s)))
                   = attempted_of (trace s) @ map Some ms
               \<and> save_failures_of (trace (snd (saveMessages env (map Some ms) s)))
                   = save_failures_of (trace s)
            else attempted_of (trace (snd (saveMessages env (map Some ms) s)))
                   = attempted_of (trace s) @ map Some (take (Suc k) ms)
               \<and> (\<exists>e. save_failures_of (trace (snd (saveMessages env (map Some ms) s)))
                         = save_failures_of (trace s) @ [e])))"
proof -
  obtain r s1 where l: "save_loop env (map Some ms) s = (r, s1)"
    by (cases "save_loop env (map Some ms) s")
  from save_loop_prefix[OF l] obtain k where k: "k \<le> length ms"
    "stored_of (trace s1) = stored_of (trace s) @ map Some (take k ms)"
    "save_failures_of (trace s1) = save_failures_of (trace s)"
    "case r of
       None \<Rightarrow> k = length ms
         \<and> attempted_of (trace s1) = attempted_of (trace s) @ map Some ms
     | Some e \<Rightarrow> k < length ms
         \<and> attempted_of (trace s1) = attempted_of (trace s) @ map Some (take (Suc k) ms)"
    by blast
  show ?thesis
  proof (cases r)
    case None
    with l have "saveMessages env (map Some ms) s = (None, s1)"
      by (simp add: saveMessages_def)
    with k None show ?thesis by auto
  next
    case (Some e)
    with l have "saveMessages env (map Some ms) s
                   = (None, emit (Console (LogSaveFailed e)) s1)"
      by (simp add: saveMessages_def)
    with k Some show ?thesis
      by (auto simp: emit_def intro!: exI[of _ k])
  qed
qed

theorem saveMessages_stops_at_first_failure_witness:
  "fst (saveMessages failing_store_env (map Some five_messages)
          (sim_agent [user_message] None None)) = None
   \<and> (\<exists>k. k \<le> 5
        \<and> stored_of (trace (snd (saveMessages failing_store_env (map Some five_messages)
                                    (sim_agent [user_message] None None))))
            = map Some (take k five_messages))"
proof -
  have l: "length five_messages = 5"
    by (simp add: five_messages_def)
  have t: "trace (sim_agent [user_message] None None) = []"
    by (simp add: sim_agent_def ResponderAgent_def)
  from saveMessages_stops_at_first_failure
         [of failing_store_env five_messages "sim_agent [user_message] None None"]
  show ?thesis
    unfolding l t by auto
qed

text \<open>
  Against claim C2 as stated: five messages, and a store that fails on the second
  call. Nothing reaches the caller and the failure is logged, but the store holds
  one row, not four: the third, fourth and fifth message are never given to it.
\<close>

theorem saveMessages_second_of_five_counterexample:
  "fst (saveMessages failing_store_env (map Some five_messages)
          (sim_agent [user_message] None None)) = None
   \<and> rows (world (snd (saveMessages failing_store_env (map Some five_messages)
                         (sim_agent [user_message] None None))))
       = [user_message\<lparr>m_id := ''a1''\<rparr>]
   \<and> attempted_of (trace (snd (saveMessages failing_store_env (map Some five_messages)
                                  (sim_agent [user_message] None None))))
       = [Some (user_message\<lparr>m_id := ''a1''\<rparr>), Some (user_message\<lparr>m_id := ''a2''\<rparr>)]
   \<and> save_failures_of (trace (snd (saveMessages failing_store_env (map Some five_messages)
                                      (sim_agent [user_message] None None))))
       = [Rejected ''insert failed'']"
  by (simp add: saveMessages_def failing_store_env_def sim_env_def sim_createMessage_def
      five_messages_def sim_agent_def ResponderAgent_def sim0_def Let_def emit_def)

text \<open>
  Claim C3. With the bound 0 and a history that is not empty, \<^verbatim>\<open>run\<close> (the catalog
  having answered) closes the output stream without a single completion request: the
  \<^verbatim>\<open>while\<close> is not entered, the history is unchanged, and only the last message of
  the history goes to the relay. The first round that the claim expects, with the
  tools omitted, does not take place.
\<close>

theorem run_max_steps_zero:
  assumes "currentMessages s \<noteq> []" and "steps s = 0" and "maxToolCallSteps s = 0"
    and "getToolsByPrompt env (catalog_query env s) (world s) = (Inr suggestedTools, w)"
  shows "\<exists>s'. run env s = (Inr Closed, s')
           \<and> requests_of (trace s') = requests_of (trace s)
           \<and> currentMessages s' = currentMessages s
           \<and> waitUntil s' = waitUntil s @ [[Some (last (currentMessages s))]]"
proof -
  let ?s1 = "s\<lparr>world := w,
                trace := trace s
                  @ [Console LogRunning, CatalogQuery (catalog_query env s),
                     Console (LogSuggested
                       (map (\<lambda>tool. (st_name tool, st_similarity tool)) suggestedTools))]\<rparr>"
  have i: "initialize env s = (None, ?s1)"
    by (simp add: initialize_catalog[OF assms(1,4)])
  have "\<not> steps ?s1 < maxToolCallSteps ?s1"
    using assms(2,3) by simp
  from processSteps_bound_reached[OF this, of env]
  have p: "processSteps env ?s1
             = (None, ?s1\<lparr>waitUntil := waitUntil s @ [[last_element (currentMessages s)]]\<rparr>)"
    by simp
  have l: "last_element (currentMessages s) = Some (last (currentMessages s))"
    using assms(1) by (simp add: last_element_def split: list.splits)
  show ?thesis
    by (simp add: run_def i p l finalize_def emit_def)
qed

theorem run_max_steps_zero_witness:
  "currentMessages (sim_agent [user_message] (Some 0) None) \<noteq> []
   \<and> steps (sim_agent [user_message] (Some 0) None) = 0
   \<and> maxToolCallSteps (sim_agent [user_message] (Some 0) None) = 0
   \<and> getToolsByPrompt (sim_env (\<lambda>req. sunny_stream))
        (catalog_query (sim_env (\<lambda>req. sunny_stream)) (sim_agent [user_message] (Some 0) None))
        (world (sim_agent [user_message] (Some 0) None)) = (Inr [], sim0)
   \<and> fst (run (sim_env (\<lambda>req. sunny_stream)) (sim_agent [user_message] (Some 0) None))
       = Inr Closed
   \<and> requests_of (trace (snd (run (sim_env (\<lambda>req. sunny_stream))
                                 (sim_agent [user_message] (Some 0) None)))) = []
   \<and> currentMessages (snd (run (sim_env (\<lambda>req. sunny_stream))
                              (sim_agent [user_message] (Some 0) None))) = [user_message]"
proof -
  let ?env = "sim_env (\<lambda>req. sunny_stream)"
  let ?s = "sim_agent [user_message] (Some 0) None"
  have a: "currentMessages ?s \<noteq> []" and b: "steps ?s = 0" and c: "maxToolCallSteps ?s = 0"
    by (simp_all add: sim_agent_def ResponderAgent_def)
  have d: "getToolsByPrompt ?env (catalog_query ?env ?s) (world ?s) = (Inr [], sim0)"
    by (simp add: sim_env_def sim_agent_def ResponderAgent_def)
  have t: "trace ?s = []" "currentMessages ?s = [user_message]"
    by (simp_all add: sim_agent_def ResponderAgent_def)
  from run_max_steps_zero[OF a b c d] obtain s'
    where "run ?env ?s = (Inr Closed, s')" "requests_of (trace s') = []"
      "currentMessages s' = [user_message]"
    by (auto simp: t)
  with a b c d show ?thesis by simp
qed

text \<open>
  Claim C4, as amended. When the history is not empty and the query to the tool
  catalog fails, \<^verbatim>\<open>run\<close> fails with the catalog's error: \<^verbatim>\<open>initialize\<close> has no
  handler around the query, so the promise of \<^verbatim>\<open>run\<close> is rejected, nothing is
  written to the console about the error, and no completion request is issued.
\<close>

theorem run_catalog_failure:
  assumes "currentMessages s \<noteq> []"
    and "getToolsByPrompt env (catalog_query env s) (world s) = (Inl e, w)"
  shows "run env s =
           (Inl e,
            s\<lparr>world := w,
              trace := trace s @ [Console LogRunning, CatalogQuery (catalog_query env s)]\<rparr>)"
  by (simp add: run_def initialize_catalog[OF assms])

theorem run_catalog_failure_witness:
  "currentMessages (sim_agent [system_message, user_message] None None) \<noteq> []
   \<and> getToolsByPrompt catalog_down_env
        (catalog_query catalog_down_env (sim_agent [system_message, user_message] None None))
        (world (sim_agent [system_message, user_message] None None))
       = (Inl (Rejected ''catalog unavailable''), sim0)
   \<and> fst (run catalog_down_env (sim_agent [system_message, user_message] None None))
       = Inl (Rejected ''catalog unavailable'')
   \<and> requests_of (trace (snd (run catalog_down_env
         (sim_agent [system_message, user_message] None None)))) = []"
proof -
  let ?s = "sim_agent [system_message, user_message] None None"
  have a: "currentMessages ?s \<noteq> []"
    by (simp add: sim_agent_def ResponderAgent_def)
  have b: "getToolsByPrompt catalog_down_env (catalog_query catalog_down_env ?s) (world ?s)
             = (Inl (Rejected ''catalog unavailable''), sim0)"
    by (simp add: catalog_down_env_def sim_env_def sim_agent_def ResponderAgent_def)
  have t: "trace ?s = []"
    by (simp add: sim_agent_def ResponderAgent_def)
  from run_catalog_failure[OF a b] a b show ?thesis
    by (simp add: t)
qed

text \<open>
  Against claim C4 as stated: with the catalog down, the run on a history of one
  message is aborted. The caller gets the catalog's error, and the trace holds
  neither a line about the error nor a completion request.
\<close>

theorem run_catalog_failure_counterexample:
  "run catalog_down_env (sim_agent [user_message] None None)
     = (Inl (Rejected ''catalog unavailable''),
        (sim_agent [user_message] None None)
          \<lparr>trace := [Console LogRunning, CatalogQuery ''What is the weather in Tokyo?'']\<rparr>)"
  by (simp add: run_def initialize_def Let_def emit_def catalog_query_def catalog_down_env_def
      sim_env_def sim_agent_def ResponderAgent_def slice_last_def or_empty_def user_message_def)




text \<open>
  Claim C6. \<^verbatim>\<open>run\<close> on an empty history fails at once with the precondition error:
  the promise is rejected with \<^verbatim>\<open>Messages array is empty\<close>, the only effect is the
  first console line, no query goes to the tool catalog, no completion request is
  issued, and the outside world is untouched.
\<close>

theorem run_empty_history:
  assumes "currentMessages s = []"
  shows "run env s = (Inl EmptyMessages, s\<lparr>trace := trace s @ [Console LogRunning]\<rparr>)
         \<and> catalog_queries_of (trace (snd (run env s))) = catalog_queries_of (trace s)
         \<and> requests_of (trace (snd (run env s))) = requests_of (trace s)
         \<and> world (snd (run env s)) = world s"
  using assms
  by (simp add: run_def initialize_empty emit_def catalog_queries_of_def)

theorem run_empty_history_witness:
  "currentMessages (sim_agent [] None None) = []
   \<and> run (sim_env weather_provider) (sim_agent [] None None)
       = (Inl EmptyMessages,
          (sim_agent [] None None)\<lparr>trace := [Console LogRunning]\<rparr>)
   \<and> catalog_queries_of (trace (snd (run (sim_env weather_provider) (sim_agent [] None None)))) = []
   \<and> requests_of (trace (snd (run (sim_env weather_provider) (sim_agent [] None None)))) = []
   \<and> world (snd (run (sim_env weather_provider) (sim_agent [] None None))) = sim0"
proof -
  have e: "currentMessages (sim_agent [] None None) = []"
    by (simp add: sim_agent_def ResponderAgent_def)
  have t: "trace (sim_agent [] None None) = []" "world (sim_agent [] None None) = sim0"
    by (simp_all add: sim_agent_def ResponderAgent_def)
  from run_empty_history[OF e, of "sim_env weather_provider"] e show ?thesis
    by (simp add: t catalog_queries_of_def)
qed

text \<open>
  Claim C7. \<^verbatim>\<open>executeTools\<close> returns one tool message per tool call, in the order
  of the calls. The \<^verbatim>\<open>tool_call_id\<close> of each is the id of its call, the empty string
  when the call has none; the ids of the messages are the values of as many successive
  calls of \<^verbatim>\<open>uuidv4()\<close>, in order; the role is \<^verbatim>\<open>tool\<close> and the thread is the
  agent's.
\<close>

theorem executeTools_one_message_per_request:
  "length (fst (executeTools env toolCalls s)) = length toolCalls
   \<and> map m_tool_call_id (fst (executeTools env toolCalls s))
       = map (\<lambda>toolCall. Some (case tc_id toolCall of None \<Rightarrow> [] | Some i \<Rightarrow> i)) toolCalls
   \<and> map m_id (fst (executeTools env toolCalls s)) = uuids env (length toolCalls) (world s)
   \<and> list_all (\<lambda>m. m_role m = Some R_tool \<and> m_thread_id m = threadID s)
        (fst (executeTools env toolCalls s))"
proof -
  obtain result w where m: "map_toolCalls env (threadID s) toolCalls (world s) = (result, w)"
    by (cases "map_toolCalls env (threadID s) toolCalls (world s)")
  then have e: "fst (executeTools env toolCalls s) = result"
    by (simp add: executeTools_def Let_def emit_def)
  note r = map_toolCalls_result[OF m]
  have l: "length (uuids env (length toolCalls) (world s)) = length toolCalls"
    by simp
  show ?thesis
    unfolding e r using l
    by (auto simp: tool_message_def or_empty_def list_all_iff set_zip
        intro!: nth_equalityI)
qed

text \<open>Three tool calls, the second without an id.\<close>

theorem executeTools_one_message_per_request_witness:
  "map (\<lambda>m. (m_id m, m_tool_call_id m, m_role m, m_thread_id m))
     (fst (executeTools (sim_env weather_provider)
             [\<lparr>tc_index = 0, tc_id = Some ''call_a'', tc_name = Some ''get_current_weather'',
               tc_arguments = Some ''{}''\<rparr>,
              \<lparr>tc_index = 1, tc_id = None, tc_name = Some ''control_air_conditioner'',
               tc_arguments = Some ''{}''\<rparr>,
              \<lparr>tc_index = 2, tc_id = Some ''call_c'', tc_name = Some ''get_current_weather'',
               tc_arguments = Some ''{}''\<rparr>]
             (sim_agent [user_message] None None)))
   = [(''u'', Some ''call_a'', Some R_tool, ''t1''),
      (''ui'', Some [], Some R_tool, ''t1''),
      (''uii'', Some ''call_c'', Some R_tool, ''t1'')]"
proof -
  let ?tcs = "[\<lparr>tc_index = 0, tc_id = Some ''call_a'', tc_name = Some ''get_current_weather'',
               tc_arguments = Some ''{}''\<rparr>,
              \<lparr>tc_index = 1, tc_id = None, tc_name = Some ''control_air_conditioner'',
               tc_arguments = Some ''{}''\<rparr>,
              \<lparr>tc_index = 2, tc_id = Some ''call_c'', tc_name = Some ''get_current_weather'',
               tc_arguments = Some ''{}''\<rparr>]"
  let ?s = "sim_agent [user_message] None None"
  let ?r = "fst (executeTools (sim_env weather_provider) ?tcs ?s)"
  note t = executeTools_one_message_per_request[of "sim_env weather_provider" ?tcs ?s]
  from t have n: "length ?r = 3" by simp
  then obtain a b c where r: "?r = [a, b, c]"
    by (auto simp: length_Suc_conv numeral_3_eq_3)
  have th: "threadID ?s = ''t1''"
    by (simp add: sim_agent_def ResponderAgent_def)
  from t show ?thesis
    unfolding r
    by (simp add: th sim_env_def sim_uuidv4_def sim_agent_def ResponderAgent_def sim0_def)
qed

text \<open>
  Claim C8. With the bound 0, a history of one message and a provider whose first
  merged response has the finish reason \<^verbatim>\<open>stop\<close>, \<^verbatim>\<open>processSteps\<close> performs no
  round: no completion request is issued, the history keeps its one message, and only
  that message goes to the relay. The one round that the claim expects whatever the
  bound is skipped by the guard of the \<^verbatim>\<open>while\<close>, although \<^verbatim>\<open>fetch\<close> provides for
  a request at the bound; below the bound the round takes place and is the only one.
\<close>

theorem processSteps_stop_bound_zero:
  "hasToolCall (merged_response (sim_env (\<lambda>req. sunny_stream)) (chunks_of sunny_stream))
     = Inr False
   \<and> processSteps (sim_env (\<lambda>req. sunny_stream)) (sim_agent [user_message] (Some 0) None)
       = (None, (sim_agent [user_message] (Some 0) None)\<lparr>waitUntil := [[Some user_message]]\<rparr>)
   \<and> requests_of (trace (snd (processSteps (sim_env (\<lambda>req. sunny_stream))
                                 (sim_agent [user_message] (Some 0) None)))) = []
   \<and> currentMessages (snd (processSteps (sim_env (\<lambda>req. sunny_stream))
                              (sim_agent [user_message] (Some 0) None))) = [user_message]"
proof -
  have d: "hasToolCall (merged_response (sim_env (\<lambda>req. sunny_stream)) (chunks_of sunny_stream))
             = Inr False"
    by (simp add: hasToolCall_def merged_response_def chunks_of_def sim_defs)
  have p: "processSteps (sim_env (\<lambda>req. sunny_stream)) (sim_agent [user_message] (Some 0) None)
       = (None, (sim_agent [user_message] (Some 0) None)\<lparr>waitUntil := [[Some user_message]]\<rparr>)"
    by (simp add: processSteps_def loop.simps sim_agent_def ResponderAgent_def last_element_def)
  show ?thesis
    unfolding p using d by (simp add: sim_agent_def ResponderAgent_def)
qed



text \<open>
  Claim C10. \<^verbatim>\<open>processResponse\<close> on a stream that ends without a fragment throws a
  \<^verbatim>\<open>TypeError\<close>: the accumulated object is still \<^verbatim>\<open>{}\<close> and has no
  \<^verbatim>\<open>choices\<close> to index. A round whose provider answers with such a stream therefore
  ends \<^verbatim>\<open>processSteps\<close> with that error, after the request and one \<^verbatim>\<open>uuidv4()\<close>:
  no message is appended and nothing is handed to the relay.
\<close>

theorem processResponse_no_fragment:
  "processResponse env [] s = (Inl TypeError, s\<lparr>world := snd (uuidv4 env (world s))\<rparr>)
   \<and> (steps s < maxToolCallSteps s
        \<and> chat_completions_create env (completion_request env s) (world s) = (Inr [], w)
      \<longrightarrow> processSteps env s
            = (Some TypeError,
               s\<lparr>world := snd (uuidv4 env w),
                 trace := trace s
                   @ [Console (LogStep (steps s) (length (currentMessages s))),
                      CompletionRequest (completion_request env s)]\<rparr>))"
  by (simp add: processResponse_def first_choice_def processSteps_def loop.simps
      loop_body_no_fragment split: prod.splits)

theorem processResponse_no_fragment_witness:
  "steps (sim_agent [user_message] None None) < maxToolCallSteps (sim_agent [user_message] None None)
   \<and> chat_completions_create (sim_env (\<lambda>req. []))
        (completion_request (sim_env (\<lambda>req. [])) (sim_agent [user_message] None None))
        (world (sim_agent [user_message] None None)) = (Inr [], sim0)
   \<and> fst (processResponse (sim_env (\<lambda>req. [])) [] (sim_agent [user_message] None None))
       = Inl TypeError
   \<and> fst (processSteps (sim_env (\<lambda>req. [])) (sim_agent [user_message] None None))
       = Some TypeError
   \<and> currentMessages (snd (processSteps (sim_env (\<lambda>req. [])) (sim_agent [user_message] None None)))
       = [user_message]
   \<and> waitUntil (snd (processSteps (sim_env (\<lambda>req. [])) (sim_agent [user_message] None None)))
       = []"
proof -
  let ?s = "sim_agent [user_message] None None"
  let ?env = "sim_env (\<lambda>req. [])"
  have a: "steps ?s < maxToolCallSteps ?s"
    by (simp add: sim_agent_def ResponderAgent_def MAX_TOOLCALL_STEPS_def)
  have b: "chat_completions_create ?env (completion_request ?env ?s) (world ?s) = (Inr [], sim0)"
    by (simp add: sim_env_def sim_agent_def ResponderAgent_def)
  have h: "currentMessages ?s = [user_message]" "waitUntil ?s = []"
    by (simp_all add: sim_agent_def ResponderAgent_def)
  from processResponse_no_fragment[of ?env ?s sim0] a b show ?thesis
    by (simp add: h)
qed

end
